theory Spec2Isabelle
  imports Complex_Main
begin

section \<open>Values, errors and the objects the operators work on\<close>

text \<open>
  The module \<open>dollo_node_operators\<close> is Python. Exceptions are values of \<open>pyerror\<close>,
  and a call that may raise returns \<open>pyerror + 'a\<close> with \<open>Inl\<close> for the exception.
\<close>

datatype pyerror = AttributeError | TypeError | IndexError | CountError

type_synonym ref = nat

text \<open>
  A \<open>BitArray\<close> is a mutable object. The store maps the address of every bit array to
  its bits; \<open>fresh\<close> is the next address that \<open>BitArray(...)\<close> hands out, so every
  address below \<open>fresh\<close> belongs to an object that already exists.
\<close>

record bitstore =
  cells :: "ref \<Rightarrow> bool list"
  fresh :: ref

definition BitArray :: "ref \<Rightarrow> bitstore \<Rightarrow> ref \<times> bitstore" where
  \<comment> \<open>\<open>BitArray(b)\<close>: a new bit array holding a copy of the bits of \<open>b\<close>\<close>
  "BitArray b s = (fresh s, s\<lparr>cells := (cells s)(fresh s := cells s b), fresh := Suc (fresh s)\<rparr>)"

definition setitem :: "ref \<Rightarrow> nat \<Rightarrow> bool \<Rightarrow> bitstore \<Rightarrow> bitstore" where
  \<comment> \<open>\<open>b[i] = v\<close> for an index in range (the only way the evaluators use it)\<close>
  "setitem b i v s = s\<lparr>cells := (cells s)(b := (cells s b)[i := v])\<rparr>"

text \<open>
  \<open>ReadElement\<close> (module \<open>read_element\<close>) is built from an identifier, a bit array
  and the bit array of unknown positions; the operators read its attributes
  \<open>binary_read\<close> and \<open>unknown_read\<close> and never assign them.
\<close>

record ReadElement =
  read_id :: string
  binary_read :: ref
  unknown_read :: ref

text \<open>What a method that is handed a read can see of it: its identifier and the bits
  its two bit arrays hold at the time of the call.\<close>

type_synonym read_content = "string \<times> bool list \<times> bool list"

definition content :: "bitstore \<Rightarrow> ReadElement \<Rightarrow> read_content" where
  "content s read = (read_id read, cells s (binary_read read), cells s (unknown_read read))"

text \<open>
  A \<open>DolloNode\<close> is a node of an \<open>anytree\<close> tree: a label, its binary tag and the list
  of its children. A node inside a tree is addressed by the path of child indices
  that leads to it from the root.
\<close>

datatype dollo_node =
  DolloNode (node_label: string) (binary_tag: "bool list") (children: "dollo_node list")

type_synonym path = "nat list"

type_synonym partition = "string \<rightharpoonup> string list list"

text \<open>
  The class \<open>DolloNode\<close> itself (module \<open>dollo_node\<close>) is not part of the two source
  files. Its methods are taken as parameters, collected in one record, and every
  result below holds for whatever these methods compute.
  The four normalisation methods work in place and, by the contract of the tree,
  mutate only the subtree rooted at their receiver; here they map the receiver's
  subtree to the subtree that replaces it. \<open>closest_node_in_tree\<close>,
  \<open>tree_is_equal\<close> and \<open>tree_get_partition\<close> only read.
\<close>

record DolloNode_class =
  closest_node_in_tree :: "dollo_node \<Rightarrow> read_content \<Rightarrow> path \<times> real"
  tree_is_equal :: "dollo_node \<Rightarrow> dollo_node \<Rightarrow> bool"
  tree_get_partition :: "dollo_node \<Rightarrow> partition \<Rightarrow> partition"
  tree_compact_vertical :: "dollo_node \<Rightarrow> dollo_node"
  tree_compact_horizontal :: "dollo_node \<Rightarrow> dollo_node"
  tree_rearange_by_label :: "dollo_node \<Rightarrow> dollo_node"
  tree_set_binary_tags :: "string list \<Rightarrow> dollo_node \<Rightarrow> dollo_node"

text \<open>
  Python is dynamically typed, and \<open>evaluate_dollo_node_individual\<close> hands its
  arguments on in an order that differs from the order of the parameters it calls.
  The two arguments concerned, \<open>alpha\<close> and \<open>individual\<close>, are therefore Python
  values: a number or a \<open>DolloNode\<close>. Numbers are real numbers here (Python's floats
  without rounding).
\<close>

datatype pyval = PyFloat real | PyNode dollo_node

definition py_mul :: "real \<Rightarrow> pyval \<Rightarrow> pyerror + real" where
  \<comment> \<open>\<open>d * alpha\<close>: a number times a node is a TypeError\<close>
  "py_mul d alpha = (case alpha of PyFloat a \<Rightarrow> Inr (d * a) | PyNode _ \<Rightarrow> Inl TypeError)"

section \<open>Loops\<close>

text \<open>\<open>for x in xs: body\<close>, where the body updates an accumulator and the store and
  may raise; an exception leaves the loop at once.\<close>

primrec for_each ::
  "'a list \<Rightarrow> ('a \<Rightarrow> 'acc \<Rightarrow> 's \<Rightarrow> (pyerror + 'acc) \<times> 's) \<Rightarrow> 'acc \<Rightarrow> 's \<Rightarrow> (pyerror + 'acc) \<times> 's"
where
  "for_each [] body acc s = (Inr acc, s)"
| "for_each (x # xs) body acc s =
     (case body x acc s of
        (Inl e, s') \<Rightarrow> (Inl e, s')
      | (Inr acc', s') \<Rightarrow> for_each xs body acc' s')"

section \<open>Evaluation\<close>

definition dolo_closest_node_distance ::
  "DolloNode_class \<Rightarrow> pyval \<Rightarrow> ReadElement \<Rightarrow> bitstore \<Rightarrow> pyerror + (path \<times> real)" where
  \<comment> \<open>\<open>individual.closest_node_in_tree(read)\<close>; a float has no such attribute.
      The \<open>lru_cache\<close> around it is left out: trees and reads are keys by identity
      and are not mutated once they have been keys, so a hit returns what the call
      would return.\<close>
  "dolo_closest_node_distance K individual read s =
     (case individual of
        PyNode t \<Rightarrow> Inr (closest_node_in_tree K t (content s read))
      | PyFloat _ \<Rightarrow> Inl AttributeError)"

definition dollo_evaluate_direct_level0 ::
  "DolloNode_class \<Rightarrow> ReadElement list \<Rightarrow> pyval \<Rightarrow> pyval \<Rightarrow> bitstore \<Rightarrow> (pyerror + real) \<times> bitstore" where
  "dollo_evaluate_direct_level0 K reads alpha individual =
     for_each reads
       (\<lambda>read objection_value s.
          case dolo_closest_node_distance K individual read s of
            Inl e \<Rightarrow> (Inl e, s)
          | Inr (node, d) \<Rightarrow> (Inr (objection_value + d), s))
       0"

definition perturbed :: "ReadElement \<Rightarrow> nat list \<Rightarrow> bitstore \<Rightarrow> ReadElement \<times> bitstore" where
  \<comment> \<open>\<open>read2 = BitArray(read.binary_read); read2[i] = False; ...;
      re2 = ReadElement("XXX2", read2, read.unknown_read)\<close>\<close>
  "perturbed read positions s =
     (let (read2, s1) = BitArray (binary_read read) s;
          s2 = fold (\<lambda>i. setitem read2 i False) positions s1
      in (\<lparr>read_id = ''XXX2'', binary_read = read2, unknown_read = unknown_read read\<rparr>, s2))"

definition bit_at :: "bitstore \<Rightarrow> ReadElement \<Rightarrow> nat \<Rightarrow> bool" where
  \<comment> \<open>\<open>read.binary_read[i]\<close>, for \<open>i\<close> in \<open>range(0, read.binary_read.length)\<close>\<close>
  "bit_at s read i = (cells s (binary_read read) ! i)"

definition binary_read_length :: "bitstore \<Rightarrow> ReadElement \<Rightarrow> nat" where
  "binary_read_length s read = length (cells s (binary_read read))"

definition py_mul2 :: "real \<Rightarrow> pyval \<Rightarrow> pyerror + real" where
  \<comment> \<open>\<open>d * alpha * alpha\<close>, evaluated from the left\<close>
  "py_mul2 d alpha = (case py_mul d alpha of Inl e \<Rightarrow> Inl e | Inr x \<Rightarrow> py_mul x alpha)"

definition add_false_positive ::
  "DolloNode_class \<Rightarrow> pyval \<Rightarrow> ReadElement \<Rightarrow> nat list \<Rightarrow> (real \<Rightarrow> pyerror + real) \<Rightarrow>
   real \<Rightarrow> bitstore \<Rightarrow> (pyerror + real) \<times> bitstore" where
  \<comment> \<open>the body under the \<open>if\<close> of the three evaluators: build the perturbed read,
      look up its distance, add the weighted distance to \<open>objection_value\<close>\<close>
  "add_false_positive K individual read positions weigh objection_value s =
     (let (re2, s') = perturbed read positions s
      in case dolo_closest_node_distance K individual re2 s' of
           Inl e \<Rightarrow> (Inl e, s')
         | Inr (node, d) \<Rightarrow>
             (case weigh d of
                Inl e \<Rightarrow> (Inl e, s')
              | Inr x \<Rightarrow> (Inr (objection_value + x), s')))"

definition dollo_evaluate_direct_level1 ::
  "DolloNode_class \<Rightarrow> ReadElement list \<Rightarrow> pyval \<Rightarrow> pyval \<Rightarrow> bitstore \<Rightarrow> (pyerror + real) \<times> bitstore" where
  "dollo_evaluate_direct_level1 K reads alpha individual s0 =
     (case dollo_evaluate_direct_level0 K reads alpha individual s0 of
        (Inl e, s) \<Rightarrow> (Inl e, s)
      | (Inr objection_value, s) \<Rightarrow>
          for_each reads
            (\<lambda>read ov s.
               for_each [0 ..< binary_read_length s read]
                 (\<lambda>i ov s.
                    if bit_at s read i
                    then add_false_positive K individual read [i] (\<lambda>d. py_mul d alpha) ov s
                    else (Inr ov, s))
                 ov s)
            objection_value s)"

definition dollo_evaluate_direct_level2 ::
  "DolloNode_class \<Rightarrow> ReadElement list \<Rightarrow> pyval \<Rightarrow> pyval \<Rightarrow> bitstore \<Rightarrow> (pyerror + real) \<times> bitstore" where
  "dollo_evaluate_direct_level2 K reads alpha individual s0 =
     (case dollo_evaluate_direct_level1 K reads alpha individual s0 of
        (Inl e, s) \<Rightarrow> (Inl e, s)
      | (Inr objection_value, s) \<Rightarrow>
          for_each reads
            (\<lambda>read ov s.
               for_each [0 ..< binary_read_length s read]
                 (\<lambda>i ov s.
                    for_each [i + 1 ..< binary_read_length s read]
                      (\<lambda>j ov s.
                         if bit_at s read i \<and> bit_at s read j
                         then add_false_positive K individual read [i, j] (\<lambda>d. py_mul2 d alpha) ov s
                         else (Inr ov, s))
                      ov s)
                 ov s)
            objection_value s)"

definition dollo_evaluate_direct_level3 ::
  "DolloNode_class \<Rightarrow> ReadElement list \<Rightarrow> pyval \<Rightarrow> pyval \<Rightarrow> bitstore \<Rightarrow> (pyerror + real) \<times> bitstore" where
  "dollo_evaluate_direct_level3 K reads alpha individual s0 =
     (case dollo_evaluate_direct_level2 K reads alpha individual s0 of
        (Inl e, s) \<Rightarrow> (Inl e, s)
      | (Inr objection_value, s) \<Rightarrow>
          for_each reads
            (\<lambda>read ov s.
               for_each [0 ..< binary_read_length s read]
                 (\<lambda>i ov s.
                    for_each [i + 1 ..< binary_read_length s read]
                      (\<lambda>j ov s.
                         for_each [j + 1 ..< binary_read_length s read]
                           (\<lambda>k ov s.
                              if bit_at s read i \<and> bit_at s read j \<and> bit_at s read k
                              then add_false_positive K individual read [i, j, k]
                                     (\<lambda>d. py_mul2 d alpha) ov s
                              else (Inr ov, s))
                           ov s)
                      ov s)
                 ov s)
            objection_value s)"

definition evaluate_dollo_node_individual ::
  "DolloNode_class \<Rightarrow> ReadElement list \<Rightarrow> pyval \<Rightarrow> pyval \<Rightarrow> bitstore \<Rightarrow>
   (pyerror + real list) \<times> bitstore" where
  \<comment> \<open>\<open>return (dollo_evaluate_direct_level2(reads, individual, alpha),)\<close>: the second
      parameter of level 2 is \<open>alpha\<close> and it receives \<open>individual\<close>; the third is
      \<open>individual\<close> and it receives \<open>alpha\<close>. The one-element tuple is a one-element list.\<close>
  "evaluate_dollo_node_individual K reads individual alpha s0 =
     (case dollo_evaluate_direct_level2 K reads individual alpha s0 of
        (Inl e, s) \<Rightarrow> (Inl e, s)
      | (Inr v, s) \<Rightarrow> (Inr [v], s))"


section \<open>Trees as objects, deep copies and the random generator\<close>

text \<open>
  An individual is an object: the address of the root node of a tree. The state holds
  the tree found at every address, the next unused address, and the stream of the
  numbers that the global generator of the module \<open>random\<close> will draw together with
  the count of those already drawn.
\<close>

record pystate =
  objs :: "ref \<Rightarrow> dollo_node"
  next_obj :: ref
  draws :: "nat \<Rightarrow> nat"
  drawn :: nat

definition deepcopy :: "ref \<Rightarrow> pystate \<Rightarrow> ref \<times> pystate" where
  \<comment> \<open>\<open>copy.deepcopy(individual)\<close>: a new object that holds an equal tree\<close>
  "deepcopy r w =
     (next_obj w, w\<lparr>objs := (objs w)(next_obj w := objs w r), next_obj := Suc (next_obj w)\<rparr>)"

definition random_choice :: "'a list \<Rightarrow> pystate \<Rightarrow> (pyerror + 'a) \<times> pystate" where
  \<comment> \<open>\<open>random.choice(seq)\<close>: IndexError on an empty sequence\<close>
  "random_choice seq w =
     (if seq = [] then (Inl IndexError, w)
      else (Inr (seq ! (draws w (drawn w) mod length seq)), w\<lparr>drawn := Suc (drawn w)\<rparr>))"

definition random_random :: "pystate \<Rightarrow> real \<times> pystate" where
  \<comment> \<open>\<open>random.random()\<close>: a multiple of \<open>2\<^sup>-\<^sup>5\<^sup>3\<close> in \<open>[0, 1)\<close>\<close>
  "random_random w =
     (real (draws w (drawn w) mod 2 ^ 53) / 2 ^ 53, w\<lparr>drawn := Suc (drawn w)\<rparr>)"

text \<open>\<open>anytree\<close>: the nodes of a tree in pre-order, each with its path from the root.\<close>

fun nodes_of :: "dollo_node \<Rightarrow> (path \<times> dollo_node) list"
  and nodes_of_children :: "nat \<Rightarrow> dollo_node list \<Rightarrow> (path \<times> dollo_node) list" where
  "nodes_of (DolloNode l b cs) = ([], DolloNode l b cs) # nodes_of_children 0 cs"
| "nodes_of_children i [] = []"
| "nodes_of_children i (c # cs) =
     map (\<lambda>(p, n). (i # p, n)) (nodes_of c) @ nodes_of_children (Suc i) cs"

definition descendants :: "dollo_node \<Rightarrow> (path \<times> dollo_node) list" where
  \<comment> \<open>\<open>node.descendants\<close>: every node below \<open>node\<close>, without \<open>node\<close> itself\<close>
  "descendants t = tl (nodes_of t)"

definition search_find :: "dollo_node \<Rightarrow> string \<Rightarrow> pyerror + (path \<times> dollo_node) option" where
  \<comment> \<open>\<open>search.find(tree, lambda node: node.node_label == lab)\<close>: the one node that
      matches, \<open>None\<close> when no node matches, CountError when several do\<close>
  "search_find tree lab =
     (case filter (\<lambda>(p, n). node_label n = lab) (nodes_of tree) of
        [] \<Rightarrow> Inr None
      | [found] \<Rightarrow> Inr (Some found)
      | _ \<Rightarrow> Inl CountError)"

fun graft :: "dollo_node \<Rightarrow> path \<Rightarrow> dollo_node \<Rightarrow> dollo_node" where
  \<comment> \<open>the tree after the node at the path has left its parent and \<open>new\<close> has joined
      that parent: \<open>anytree\<close> removes the old child and appends the new one\<close>
  "graft (DolloNode l b cs) [] new = DolloNode l b cs"
| "graft (DolloNode l b cs) [i] new = DolloNode l b (take i cs @ drop (Suc i) cs @ [new])"
| "graft (DolloNode l b cs) (i # p) new = DolloNode l b (cs[i := graft (cs ! i) p new])"

section \<open>Crossover\<close>

definition set_consits_of_plus_lebels :: "string list list \<Rightarrow> pyerror + string list" where
  \<comment> \<open>a Python set is a list without duplicates; \<open>x[-1]\<close> of an empty string is an
      IndexError\<close>
  "set_consits_of_plus_lebels list_of_sets =
     fst (for_each list_of_sets
            (\<lambda>s ret u.
               for_each s
                 (\<lambda>x ret u.
                    if x = [] then (Inl IndexError, u)
                    else if last x = CHR ''+'' then (Inr (List.insert x ret), u)
                    else (Inr ret, u))
                 ret u)
            [] ())"

definition sets_are_equal :: "string list \<Rightarrow> string list \<Rightarrow> bool" where
  "sets_are_equal set1 set2 =
     (if \<exists>x \<in> set set1. x \<notin> set set2 then False
      else if \<exists>x \<in> set set2. x \<notin> set set1 then False
      else True)"

definition regularize :: "DolloNode_class \<Rightarrow> string list \<Rightarrow> dollo_node \<Rightarrow> dollo_node" where
  \<comment> \<open>\<open>node.tree_compact_vertical(); node.tree_compact_horizontal();
      node.tree_rearange_by_label(); node.tree_set_binary_tags(labels)\<close>\<close>
  "regularize K labels node =
     tree_set_binary_tags K labels
       (tree_rearange_by_label K (tree_compact_horizontal K (tree_compact_vertical K node)))"

definition exchange_parents ::
  "DolloNode_class \<Rightarrow> string list \<Rightarrow> dollo_node \<Rightarrow> path \<times> dollo_node \<Rightarrow>
   dollo_node \<Rightarrow> path \<times> dollo_node \<Rightarrow> dollo_node \<times> dollo_node" where
  \<comment> \<open>\<open>parent1 = node1.parent; parent2 = node2.parent; node1.parent = parent2;
      node2.parent = parent1\<close> and the regularization of both nodes. The result is
      what the objects \<open>individual1_n\<close> and \<open>individual2_n\<close> hold afterwards. A node
      that is the root of its tree has the parent \<open>None\<close>: the other node is then
      detached, and the root hangs below the other node's old parent.\<close>
  "exchange_parents K labels tree1 node1 tree2 node2 =
     (case (node1, node2) of ((path1, sub1), (path2, sub2)) \<Rightarrow>
        ((if path1 = [] then regularize K labels sub1
          else graft tree1 path1 (regularize K labels sub2)),
         (if path2 = [] then regularize K labels sub2
          else graft tree2 path2 (regularize K labels sub1))))"

definition exchange_at ::
  "DolloNode_class \<Rightarrow> string list \<Rightarrow> partition \<Rightarrow> partition \<Rightarrow> ref \<Rightarrow> ref \<Rightarrow>
   string \<Rightarrow> pystate \<Rightarrow> (pyerror + bool) \<times> pystate" where
  \<comment> \<open>the body of \<open>for lab in labels\<close>: \<open>Inr False\<close> is \<open>continue\<close>, \<open>Inr True\<close> is
      \<open>ret = True; break\<close>. A node that was not found is \<open>None\<close>, and the comparison
      and the access to \<open>.parent\<close> that follow it raise AttributeError.\<close>
  "exchange_at K labels part1 part2 individual1_n individual2_n lab0 w =
     (let lab = lab0 @ ''+'' in
      case part1 lab of
        None \<Rightarrow> (Inr False, w)
      | Some covered1 \<Rightarrow>
     (case set_consits_of_plus_lebels covered1 of
        Inl e \<Rightarrow> (Inl e, w)
      | Inr set_covered1 \<Rightarrow>
     if length set_covered1 = 0 then (Inr False, w) else
     (case part2 lab of
        None \<Rightarrow> (Inr False, w)
      | Some covered2 \<Rightarrow>
     (case set_consits_of_plus_lebels covered2 of
        Inl e \<Rightarrow> (Inl e, w)
      | Inr set_covered2 \<Rightarrow>
     if length set_covered2 = 0 then (Inr False, w) else
     if \<not> sets_are_equal set_covered1 set_covered2 then (Inr False, w) else
     (case search_find (objs w individual1_n) lab of
        Inl e \<Rightarrow> (Inl e, w)
      | Inr found1 \<Rightarrow>
     (case search_find (objs w individual2_n) lab of
        Inl e \<Rightarrow> (Inl e, w)
      | Inr found2 \<Rightarrow>
     (case found1 of
        None \<Rightarrow> (Inl AttributeError, w)
      | Some node1 \<Rightarrow>
     (case found2 of
        None \<Rightarrow> (Inl AttributeError, w)
      | Some node2 \<Rightarrow>
     if tree_is_equal K (snd node1) (snd node2) then (Inr False, w) else
     (let (new1, new2) =
            exchange_parents K labels (objs w individual1_n) node1 (objs w individual2_n) node2
      in (Inr True,
          w\<lparr>objs := (objs w)(individual1_n := new1, individual2_n := new2)\<rparr>))))))))))"

fun exchange_loop ::
  "(string \<Rightarrow> pystate \<Rightarrow> (pyerror + bool) \<times> pystate) \<Rightarrow> string list \<Rightarrow> pystate \<Rightarrow>
   (pyerror + bool) \<times> pystate" where
  \<comment> \<open>\<open>ret = False; for lab in labels: ...\<close> with its \<open>continue\<close> and \<open>break\<close>\<close>
  "exchange_loop body [] w = (Inr False, w)"
| "exchange_loop body (lab # labels) w =
     (case body lab w of
        (Inl e, w') \<Rightarrow> (Inl e, w')
      | (Inr True, w') \<Rightarrow> (Inr True, w')
      | (Inr False, w') \<Rightarrow> exchange_loop body labels w')"

definition dollo_crossover_exchange_subtrees ::
  "DolloNode_class \<Rightarrow> string list \<Rightarrow> ref \<Rightarrow> ref \<Rightarrow> pystate \<Rightarrow>
   (pyerror + bool \<times> ref \<times> ref) \<times> pystate" where
  "dollo_crossover_exchange_subtrees K labels individual1 individual2 w =
     (if tree_is_equal K (objs w individual1) (objs w individual2)
      then (Inr (False, individual1, individual2), w)
      else
        (let (individual1_n, w1) = deepcopy individual1 w;
             (individual2_n, w2) = deepcopy individual2 w1;
             part1 = tree_get_partition K (objs w2 individual1_n) Map.empty;
             part2 = tree_get_partition K (objs w2 individual2_n) Map.empty
         in case exchange_loop (exchange_at K labels part1 part2 individual1_n individual2_n)
                   labels w2 of
              (Inl e, w') \<Rightarrow> (Inl e, w')
            | (Inr ret, w') \<Rightarrow> (Inr (ret, individual1_n, individual2_n), w')))"

definition dollo_crossover_exchange_edge ::
  "DolloNode_class \<Rightarrow> string list \<Rightarrow> ref \<Rightarrow> ref \<Rightarrow> pystate \<Rightarrow>
   (pyerror + bool \<times> ref \<times> ref) \<times> pystate" where
  \<comment> \<open>\<open>print(node1.parent)\<close> and \<open>print(node2.parent)\<close> raise AttributeError when the
      node was not found\<close>
  "dollo_crossover_exchange_edge K labels individual1 individual2 w =
     (if tree_is_equal K (objs w individual1) (objs w individual2)
      then (Inr (False, individual1, individual2), w)
      else
        (let (individual1_n, w1) = deepcopy individual1 w;
             (individual2_n, w2) = deepcopy individual2 w1
         in case random_choice labels w2 of
              (Inl e, w3) \<Rightarrow> (Inl e, w3)
            | (Inr random_label, w3) \<Rightarrow>
                (let (random01, w4) = random_random w3;
                     label_is_plus =
                       (random01 < real (length labels)
                                    / real (1 + length (descendants (objs w4 individual1_n))))
                 in if label_is_plus then
                      (case search_find (objs w4 individual1_n) (random_label @ ''+'') of
                         Inl e \<Rightarrow> (Inl e, w4)
                       | Inr node1 \<Rightarrow>
                      (case search_find (objs w4 individual2_n) (random_label @ ''+'') of
                         Inl e \<Rightarrow> (Inl e, w4)
                       | Inr node2 \<Rightarrow>
                      if node1 = None \<or> node2 = None then (Inl AttributeError, w4)
                      else (Inr (True, individual1_n, individual2_n), w4)))
                    else (Inr (True, individual1_n, individual2_n), w4))))"

definition crossover_dollo_node_individuals ::
  "DolloNode_class \<Rightarrow> string list \<Rightarrow> ref \<Rightarrow> ref \<Rightarrow> pystate \<Rightarrow>
   (pyerror + ref \<times> ref) \<times> pystate" where
  "crossover_dollo_node_individuals K labels individual1 individual2 w =
     (case dollo_crossover_exchange_subtrees K labels individual1 individual2 w of
        (Inl e, w1) \<Rightarrow> (Inl e, w1)
      | (Inr (success, individual1_new, individual2_new), w1) \<Rightarrow>
     if success then (Inr (individual1_new, individual2_new), w1) else
     (case dollo_crossover_exchange_edge K labels individual1 individual2 w1 of
        (Inl e, w2) \<Rightarrow> (Inl e, w2)
      | (Inr (success, individual1_new, individual2_new), w2) \<Rightarrow>
     if success then (Inr (individual1_new, individual2_new), w2) else
     (let (individual1n, w3) = deepcopy individual1 w2;
          (individual2n, w4) = deepcopy individual2 w3
      in (Inr (individual1n, individual2n), w4))))"

section \<open>Mutation\<close>

definition dollo_mutation_node_add ::
  "string list \<Rightarrow> int \<Rightarrow> ref \<Rightarrow> pystate \<Rightarrow> (pyerror + bool \<times> ref) \<times> pystate" where
  "dollo_mutation_node_add labels k individual w =
     (let (individual_n, w1) = deepcopy individual w
      in case random_choice (descendants (objs w1 individual_n)) w1 of
           (Inl e, w2) \<Rightarrow> (Inl e, w2)
         | (Inr random_parent, w2) \<Rightarrow>
        (case random_choice labels w2 of
           (Inl e, w3) \<Rightarrow> (Inl e, w3)
         | (Inr random_label, w3) \<Rightarrow>
             (let (random01, w4) = random_random w3;
                  label_is_plus =
                    (random01 < real (length labels)
                                 / real (1 + length (descendants (objs w4 individual_n))));
                  random_label = (if label_is_plus then random_label @ ''+''
                                  else random_label @ ''-'')
              in (Inr (False, individual_n), w4))))"

definition mutate_dollo_node_individual ::
  "string list \<Rightarrow> int \<Rightarrow> ref \<Rightarrow> pystate \<Rightarrow> (pyerror + ref list) \<times> pystate" where
  "mutate_dollo_node_individual labels k individual w =
     (case dollo_mutation_node_add labels k individual w of
        (Inl e, w1) \<Rightarrow> (Inl e, w1)
      | (Inr (success, individual_new), w1) \<Rightarrow>
          if success then (Inr [individual_new], w1)
          else (let (individual_n, w2) = deepcopy individual w1
                in (Inr [individual_n], w2)))"


section \<open>Notions used to state the properties\<close>

subsection \<open>Evaluation\<close>

definition extends :: "bitstore \<Rightarrow> bitstore \<Rightarrow> bool" where
  \<comment> \<open>every bit array of \<open>s\<close> is still there in \<open>s'\<close> with the same bits\<close>
  "extends s s' = (fresh s \<le> fresh s' \<and> (\<forall>r < fresh s. cells s' r = cells s r))"

definition allocated :: "bitstore \<Rightarrow> ReadElement \<Rightarrow> bool" where
  \<comment> \<open>the two bit arrays of the read exist\<close>
  "allocated s read = (binary_read read < fresh s \<and> unknown_read read < fresh s)"

definition distance :: "DolloNode_class \<Rightarrow> dollo_node \<Rightarrow> read_content \<Rightarrow> real" where
  "distance K t rc = snd (closest_node_in_tree K t rc)"

definition bits_of :: "read_content \<Rightarrow> bool list" where
  "bits_of rc = fst (snd rc)"

definition cleared :: "read_content \<Rightarrow> nat list \<Rightarrow> read_content" where
  \<comment> \<open>what a perturbed read shows: the bits at the positions are 0, the unknown
      positions are those of the read it comes from\<close>
  "cleared rc positions =
     (case rc of (n, bits, unknown) \<Rightarrow>
        (''XXX2'', fold (\<lambda>i b. b[i := False]) positions bits, unknown))"

definition level0_sum :: "DolloNode_class \<Rightarrow> dollo_node \<Rightarrow> read_content list \<Rightarrow> real" where
  "level0_sum K t rcs = (\<Sum>rc\<leftarrow>rcs. distance K t rc)"

definition singles_sum :: "DolloNode_class \<Rightarrow> dollo_node \<Rightarrow> real \<Rightarrow> read_content \<Rightarrow> real" where
  "singles_sum K t a rc =
     (\<Sum>i\<leftarrow>[0 ..< length (bits_of rc)].
        if bits_of rc ! i then distance K t (cleared rc [i]) * a else 0)"

definition pairs_sum :: "DolloNode_class \<Rightarrow> dollo_node \<Rightarrow> real \<Rightarrow> read_content \<Rightarrow> real" where
  "pairs_sum K t a rc =
     (\<Sum>i\<leftarrow>[0 ..< length (bits_of rc)]. \<Sum>j\<leftarrow>[i + 1 ..< length (bits_of rc)].
        if bits_of rc ! i \<and> bits_of rc ! j then distance K t (cleared rc [i, j]) * a * a else 0)"

definition triples_sum :: "DolloNode_class \<Rightarrow> dollo_node \<Rightarrow> real \<Rightarrow> read_content \<Rightarrow> real" where
  "triples_sum K t a rc =
     (\<Sum>i\<leftarrow>[0 ..< length (bits_of rc)]. \<Sum>j\<leftarrow>[i + 1 ..< length (bits_of rc)].
      \<Sum>k\<leftarrow>[j + 1 ..< length (bits_of rc)].
        if bits_of rc ! i \<and> bits_of rc ! j \<and> bits_of rc ! k
        then distance K t (cleared rc [i, j, k]) * a * a else 0)"

definition set_bit_triples :: "bool list \<Rightarrow> (nat \<times> nat \<times> nat) set" where
  \<comment> \<open>the unordered triples of distinct positions whose bits are set, each written once
      with its positions in increasing order\<close>
  "set_bit_triples bits =
     {(i, j, k). i < j \<and> j < k \<and> k < length bits \<and> bits ! i \<and> bits ! j \<and> bits ! k}"

subsection \<open>Crossover\<close>

definition matched :: "dollo_node \<Rightarrow> string \<Rightarrow> (path \<times> dollo_node) list" where
  "matched tree lab = filter (\<lambda>(p, n). node_label n = lab) (nodes_of tree)"

definition plus_coverage :: "partition \<Rightarrow> string \<Rightarrow> string set" where
  \<comment> \<open>the plus labels that the partition map lists under a label\<close>
  "plus_coverage part lab =
     (case part lab of
        None \<Rightarrow> {}
      | Some covered \<Rightarrow> {x \<in> \<Union> (set ` set covered). last x = CHR ''+''})"

definition qualifies :: "DolloNode_class \<Rightarrow> dollo_node \<Rightarrow> dollo_node \<Rightarrow> string \<Rightarrow> bool" where
  \<comment> \<open>the label is a point where subtrees can be exchanged: its plus variant is a key
      of both partition maps, the two sets of covered plus labels are not empty and are
      equal, and the subtrees found under the plus variant are not equal\<close>
  "qualifies K tree1 tree2 lab0 =
     (let lab = lab0 @ ''+'';
          part1 = tree_get_partition K tree1 Map.empty;
          part2 = tree_get_partition K tree2 Map.empty
      in lab \<in> dom part1 \<and> lab \<in> dom part2
         \<and> plus_coverage part1 lab \<noteq> {} \<and> plus_coverage part2 lab \<noteq> {}
         \<and> plus_coverage part1 lab = plus_coverage part2 lab
         \<and> \<not> tree_is_equal K (snd (hd (matched tree1 lab))) (snd (hd (matched tree2 lab))))"

definition labels_well_formed :: "partition \<Rightarrow> string list \<Rightarrow> bool" where
  \<comment> \<open>no label that the partition map lists for a plus variant is the empty string\<close>
  "labels_well_formed part labels =
     (\<forall>lab0 \<in> set labels. \<forall>covered. part (lab0 @ ''+'') = Some covered \<longrightarrow>
        (\<forall>s \<in> set covered. [] \<notin> set s))"

definition keys_name_one_node ::
  "DolloNode_class \<Rightarrow> dollo_node \<Rightarrow> dollo_node \<Rightarrow> string list \<Rightarrow> bool" where
  \<comment> \<open>a plus variant that is a key of both partition maps labels exactly one node of
      each tree\<close>
  "keys_name_one_node K tree1 tree2 labels =
     (\<forall>lab0 \<in> set labels.
        lab0 @ ''+'' \<in> dom (tree_get_partition K tree1 Map.empty) \<and>
        lab0 @ ''+'' \<in> dom (tree_get_partition K tree2 Map.empty) \<longrightarrow>
        length (matched tree1 (lab0 @ ''+'')) = 1 \<and> length (matched tree2 (lab0 @ ''+'')) = 1)"

definition gained_once :: "dollo_node \<Rightarrow> string list \<Rightarrow> bool" where
  \<comment> \<open>the plus variant of every label labels exactly one node of the tree\<close>
  "gained_once tree labels = (\<forall>lab0 \<in> set labels. length (matched tree (lab0 @ ''+'')) = 1)"

subsection \<open>A small implementation of the tree methods\<close>

text \<open>
  For running the operators on concrete trees: the distance of a read is the number of
  its set bits at known positions (the distance to a root whose tag is all zero), trees
  are equal when they are the same value, the partition map lists under every plus label
  the labels of the subtree below it, and the normalisation methods change nothing.
\<close>

definition sample_distance :: "dollo_node \<Rightarrow> read_content \<Rightarrow> path \<times> real" where
  "sample_distance t rc =
     (case rc of (n, bits, unknown) \<Rightarrow>
        ([], real (length (filter (\<lambda>(b, u). b \<and> \<not> u) (zip bits unknown)))))"

definition sample_partition :: "dollo_node \<Rightarrow> partition \<Rightarrow> partition" where
  "sample_partition t acc =
     fold (\<lambda>(p, n) m. if node_label n \<noteq> [] \<and> last (node_label n) = CHR ''+''
                       then m(node_label n \<mapsto> [map (node_label \<circ> snd) (nodes_of n)]) else m)
          (nodes_of t) acc"

definition sample_class :: DolloNode_class where
  "sample_class =
     \<lparr>closest_node_in_tree = sample_distance,
      tree_is_equal = (=),
      tree_get_partition = sample_partition,
      tree_compact_vertical = (\<lambda>t. t),
      tree_compact_horizontal = (\<lambda>t. t),
      tree_rearange_by_label = (\<lambda>t. t),
      tree_set_binary_tags = (\<lambda>labels t. t)\<rparr>"

text \<open>One read with four set bits, all of them known, and a tree that is a single root.\<close>

definition sample_store :: bitstore where
  "sample_store =
     \<lparr>cells = (\<lambda>r. if r = 0 then [True, True, True, True] else [False, False, False, False]),
      fresh = 2\<rparr>"

definition sample_read :: ReadElement where
  "sample_read = \<lparr>read_id = ''r0'', binary_read = 0, unknown_read = 1\<rparr>"

definition sample_tree :: dollo_node where
  "sample_tree = DolloNode ''--'' [False, False, False, False] []"

text \<open>
  Two parents over the labels a, b and c. In the first, b and c are gained side by side
  below a; in the second, b is gained below c. Their copies will be the objects 2 and 3.
\<close>

definition sample_parent1 :: dollo_node where
  "sample_parent1 =
     DolloNode ''--'' [] [DolloNode ''a+'' [] [DolloNode ''b+'' [] [], DolloNode ''c+'' [] []]]"

definition sample_parent2 :: dollo_node where
  "sample_parent2 =
     DolloNode ''--'' [] [DolloNode ''a+'' [] [DolloNode ''c+'' [] [DolloNode ''b+'' [] []]]]"

definition sample_world :: pystate where
  "sample_world =
     \<lparr>objs = (\<lambda>r. if r = 0 then sample_parent1 else sample_parent2),
      next_obj = 2, draws = (\<lambda>n. 0), drawn = 0\<rparr>"

text \<open>Two objects that hold equal trees, and one object that holds a tree with no node
  but its root.\<close>

definition twins_world :: pystate where
  "twins_world = \<lparr>objs = (\<lambda>r. sample_parent1), next_obj = 2, draws = (\<lambda>n. 0), drawn = 0\<rparr>"

definition lone_world :: pystate where
  "lone_world = \<lparr>objs = (\<lambda>r. sample_tree), next_obj = 1, draws = (\<lambda>n. 0), drawn = 0\<rparr>"

text \<open>A tree in which the label a+ occurs twice, beside a tree in which it occurs once.\<close>

definition twice_parent :: dollo_node where
  "twice_parent =
     DolloNode ''--'' [] [DolloNode ''a+'' [] [DolloNode ''b+'' [] []],
                          DolloNode ''a+'' [] [DolloNode ''b+'' [] []]]"

definition once_parent :: dollo_node where
  "once_parent = DolloNode ''--'' [] [DolloNode ''a+'' [] [DolloNode ''b+'' [] []]]"

definition twice_world :: pystate where
  "twice_world =
     \<lparr>objs = (\<lambda>r. if r = 0 then twice_parent else once_parent),
      next_obj = 2, draws = (\<lambda>n. 0), drawn = 0\<rparr>"

section \<open>Properties of the evaluation\<close>

lemma extends_refl: "extends s s"
  by (simp add: extends_def)

lemma extends_trans: "extends s s' \<Longrightarrow> extends s' s'' \<Longrightarrow> extends s s''"
  by (auto simp: extends_def)

lemma fold_setitem_fresh: "fresh (fold (\<lambda>i. setitem b i v) ps s) = fresh s"
  by (induction ps arbitrary: s) (simp_all add: setitem_def)

lemma fold_setitem_other:
  "r \<noteq> b \<Longrightarrow> cells (fold (\<lambda>i. setitem b i v) ps s) r = cells s r"
  by (induction ps arbitrary: s) (simp_all add: setitem_def)

lemma fold_setitem_same:
  "cells (fold (\<lambda>i. setitem b i v) ps s) b = fold (\<lambda>i x. x[i := v]) ps (cells s b)"
  by (induction ps arbitrary: s) (simp_all add: setitem_def)

lemma perturbed_extends: "extends s (snd (perturbed read ps s))"
  by (simp add: perturbed_def BitArray_def extends_def fold_setitem_fresh fold_setitem_other)

lemma perturbed_content:
  assumes "allocated s read"
  shows "content (snd (perturbed read ps s)) (fst (perturbed read ps s)) = cleared (content s read) ps"
  using assms
  by (simp add: perturbed_def BitArray_def content_def cleared_def allocated_def
      fold_setitem_other fold_setitem_same)

lemma for_each_extends:
  assumes "\<And>x acc s. extends s (snd (body x acc s))"
  shows "extends s (snd (for_each xs body acc s))"
proof (induction xs arbitrary: acc s)
  case Nil
  show ?case by (simp add: extends_refl)
next
  case (Cons x xs)
  obtain r s' where b: "body x acc s = (r, s')" by (cases "body x acc s")
  have e: "extends s s'" using assms [of s x acc] b by simp
  show ?case
  proof (cases r)
    case (Inl err)
    with b e show ?thesis by simp
  next
    case (Inr acc')
    with b have "for_each (x # xs) body acc s = for_each xs body acc' s'" by simp
    with Cons.IH [of s' acc'] e show ?thesis by (simp add: extends_trans)
  qed
qed

lemma for_each_sum:
  assumes step: "\<And>x acc s. x \<in> set xs \<Longrightarrow> I s \<Longrightarrow> \<exists>s'. body x acc s = (Inr (acc + f x), s') \<and> I s'"
    and "I s"
  shows "\<exists>s'. for_each xs body (acc :: real) s = (Inr (acc + sum_list (map f xs)), s') \<and> I s'"
  using assms
proof (induction xs arbitrary: acc s)
  case Nil
  then show ?case by simp
next
  case (Cons x xs)
  from Cons.prems(1) [of x s acc] Cons.prems(2)
  obtain s' where b: "body x acc s = (Inr (acc + f x), s')" and i: "I s'" by auto
  have "\<exists>s''. for_each xs body (acc + f x) s' = (Inr (acc + f x + sum_list (map f xs)), s'') \<and> I s''"
    by (rule Cons.IH) (use Cons.prems(1) i in auto)
  with b show ?case by (simp add: add.assoc)
qed







lemma extends_allocated: "extends s0 s \<Longrightarrow> allocated s0 read \<Longrightarrow> allocated s read"
  by (auto simp: extends_def allocated_def)

lemma extends_content: "extends s0 s \<Longrightarrow> allocated s0 read \<Longrightarrow> content s read = content s0 read"
  by (auto simp: extends_def allocated_def content_def)

lemma extends_bit_at:
  "extends s0 s \<Longrightarrow> allocated s0 read \<Longrightarrow> bit_at s read i = (bits_of (content s0 read) ! i)"
  by (auto simp: extends_def allocated_def content_def bit_at_def bits_of_def)

lemma extends_length:
  "extends s0 s \<Longrightarrow> allocated s0 read \<Longrightarrow> binary_read_length s read = length (bits_of (content s0 read))"
  by (auto simp: extends_def allocated_def content_def binary_read_length_def bits_of_def)

lemma add_false_positive_extends:
  "extends s (snd (add_false_positive K individual read ps weigh ov s))"
  using perturbed_extends [of s read ps]
  by (auto simp: add_false_positive_def split: prod.splits sum.splits)

lemma add_false_positive_typed:
  assumes "extends s0 s" "allocated s0 read" "\<And>d. weigh d = Inr (w d)"
  shows "\<exists>s'. add_false_positive K (PyNode t) read ps weigh ov s
           = (Inr (ov + w (distance K t (cleared (content s0 read) ps))), s') \<and> extends s0 s'"
proof -
  obtain re2 s' where p: "perturbed read ps s = (re2, s')" by (cases "perturbed read ps s")
  have a: "allocated s read" using assms(1,2) by (rule extends_allocated)
  have c: "content s' re2 = cleared (content s0 read) ps"
    using perturbed_content [OF a, of ps] p extends_content [OF assms(1,2)] by simp
  have e: "extends s0 s'"
    using perturbed_extends [of s read ps] p assms(1) by (auto intro: extends_trans)
  show ?thesis
    using p c e assms(3)
    by (simp add: add_false_positive_def dolo_closest_node_distance_def distance_def
        split: prod.splits)
qed

lemma level0_typed:
  "dollo_evaluate_direct_level0 K reads alpha (PyNode t) s
     = (Inr (level0_sum K t (map (content s) reads)), s)"
proof -
  have "for_each reads
       (\<lambda>read objection_value s.
          case dolo_closest_node_distance K (PyNode t) read s of
            Inl e \<Rightarrow> (Inl e, s)
          | Inr (node, d) \<Rightarrow> (Inr (objection_value + d), s)) acc s
       = (Inr (acc + level0_sum K t (map (content s) reads)), s)" for acc
    by (induction reads arbitrary: acc)
       (simp_all add: level0_sum_def dolo_closest_node_distance_def distance_def
          split: prod.splits add: add.assoc)
  from this [of 0] show ?thesis by (simp add: dollo_evaluate_direct_level0_def)
qed

lemma singles_loop:
  assumes "extends s0 s" "\<forall>read \<in> set reads. allocated s0 read"
  shows "\<exists>s'. for_each reads
            (\<lambda>read ov s.
               for_each [0 ..< binary_read_length s read]
                 (\<lambda>i ov s.
                    if bit_at s read i
                    then add_false_positive K (PyNode t) read [i] (\<lambda>d. py_mul d (PyFloat a)) ov s
                    else (Inr ov, s))
                 ov s) ov s
          = (Inr (ov + (\<Sum>read\<leftarrow>reads. singles_sum K t a (content s0 read))), s') \<and> extends s0 s'"
proof (rule for_each_sum [where I = "extends s0"])
  show "extends s0 s" by fact
next
  fix read ov s
  assume r: "read \<in> set reads" and e: "extends s0 s"
  then have al: "allocated s0 read" using assms(2) by simp
  have "\<exists>s'. for_each [0 ..< length (bits_of (content s0 read))]
                 (\<lambda>i ov s.
                    if bit_at s read i
                    then add_false_positive K (PyNode t) read [i] (\<lambda>d. py_mul d (PyFloat a)) ov s
                    else (Inr ov, s)) ov s
        = (Inr (ov + (\<Sum>i\<leftarrow>[0 ..< length (bits_of (content s0 read))].
              if bits_of (content s0 read) ! i
              then distance K t (cleared (content s0 read) [i]) * a else 0)), s') \<and> extends s0 s'"
  proof (rule for_each_sum [where I = "extends s0"])
    show "extends s0 s" by fact
  next
    fix i ov s
    assume e': "extends s0 s"
    show "\<exists>s'. (if bit_at s read i
            then add_false_positive K (PyNode t) read [i] (\<lambda>d. py_mul d (PyFloat a)) ov s
            else (Inr ov, s))
         = (Inr (ov + (if bits_of (content s0 read) ! i
              then distance K t (cleared (content s0 read) [i]) * a else 0)), s') \<and> extends s0 s'"
      using add_false_positive_typed [OF e' al, of "\<lambda>d. py_mul d (PyFloat a)" "\<lambda>d. d * a" K t "[i]" ov]
        e' extends_bit_at [OF e' al, of i]
      by (simp add: py_mul_def)
  qed
  then show "\<exists>s'. for_each [0 ..< binary_read_length s read]
                 (\<lambda>i ov s.
                    if bit_at s read i
                    then add_false_positive K (PyNode t) read [i] (\<lambda>d. py_mul d (PyFloat a)) ov s
                    else (Inr ov, s)) ov s
        = (Inr (ov + singles_sum K t a (content s0 read)), s') \<and> extends s0 s'"
    by (simp add: extends_length [OF e al] singles_sum_def)
qed


lemma guarded_loop:
  assumes e: "extends s0 s" and al: "allocated s0 read" and w: "\<And>d. weigh d = Inr (w d)"
    and g: "\<And>i s. extends s0 s \<Longrightarrow> g s i = g0 i"
  shows "\<exists>s'. for_each js
            (\<lambda>i ov s. if g s i then add_false_positive K (PyNode t) read (p i) weigh ov s
                       else (Inr ov, s)) ov s
          = (Inr (ov + (\<Sum>i\<leftarrow>js. if g0 i then w (distance K t (cleared (content s0 read) (p i))) else 0)), s')
          \<and> extends s0 s'"
proof (rule for_each_sum [where I = "extends s0"])
  show "extends s0 s" by fact
next
  fix i ov s
  assume e': "extends s0 s"
  show "\<exists>s'. (if g s i then add_false_positive K (PyNode t) read (p i) weigh ov s else (Inr ov, s))
         = (Inr (ov + (if g0 i then w (distance K t (cleared (content s0 read) (p i))) else 0)), s')
         \<and> extends s0 s'"
    using add_false_positive_typed [where weigh = weigh and w = w and K = K and t = t
        and ps = "p i" and ov = ov, OF e' al w]
      e' g [OF e', of i]
    by simp
qed

lemma pairs_loop:
  assumes "extends s0 s" "\<forall>read \<in> set reads. allocated s0 read"
  shows "\<exists>s'. for_each reads
            (\<lambda>read ov s.
               for_each [0 ..< binary_read_length s read]
                 (\<lambda>i ov s.
                    for_each [i + 1 ..< binary_read_length s read]
                      (\<lambda>j ov s.
                         if bit_at s read i \<and> bit_at s read j
                         then add_false_positive K (PyNode t) read [i, j] (\<lambda>d. py_mul2 d (PyFloat a)) ov s
                         else (Inr ov, s))
                      ov s)
                 ov s) ov s
          = (Inr (ov + (\<Sum>read\<leftarrow>reads. pairs_sum K t a (content s0 read))), s') \<and> extends s0 s'"
proof (rule for_each_sum [where I = "extends s0"])
  show "extends s0 s" by fact
next
  fix read ov s
  assume r: "read \<in> set reads" and e: "extends s0 s"
  then have al: "allocated s0 read" using assms(2) by simp
  let ?n = "length (bits_of (content s0 read))"
  let ?b = "\<lambda>i. bits_of (content s0 read) ! i"
  have inner: "\<exists>s'. for_each [i + 1 ..< binary_read_length s read]
                      (\<lambda>j ov s.
                         if bit_at s read i \<and> bit_at s read j
                         then add_false_positive K (PyNode t) read [i, j] (\<lambda>d. py_mul2 d (PyFloat a)) ov s
                         else (Inr ov, s)) ov s
        = (Inr (ov + (\<Sum>j\<leftarrow>[i + 1 ..< ?n]. if ?b i \<and> ?b j
              then distance K t (cleared (content s0 read) [i, j]) * a * a else 0)), s') \<and> extends s0 s'"
    if e': "extends s0 s" for i ov s
    unfolding extends_length [OF e' al]
    by (rule guarded_loop [OF e' al])
       (simp_all add: py_mul2_def py_mul_def extends_bit_at [OF _ al])
  have "\<exists>s'. for_each [0 ..< ?n]
                 (\<lambda>i ov s.
                    for_each [i + 1 ..< binary_read_length s read]
                      (\<lambda>j ov s.
                         if bit_at s read i \<and> bit_at s read j
                         then add_false_positive K (PyNode t) read [i, j] (\<lambda>d. py_mul2 d (PyFloat a)) ov s
                         else (Inr ov, s))
                      ov s) ov s
        = (Inr (ov + (\<Sum>i\<leftarrow>[0 ..< ?n]. \<Sum>j\<leftarrow>[i + 1 ..< ?n]. if ?b i \<and> ?b j
              then distance K t (cleared (content s0 read) [i, j]) * a * a else 0)), s') \<and> extends s0 s'"
    by (rule for_each_sum [where I = "extends s0"]) (use inner e in auto)
  then show "\<exists>s'. for_each [0 ..< binary_read_length s read]
                 (\<lambda>i ov s.
                    for_each [i + 1 ..< binary_read_length s read]
                      (\<lambda>j ov s.
                         if bit_at s read i \<and> bit_at s read j
                         then add_false_positive K (PyNode t) read [i, j] (\<lambda>d. py_mul2 d (PyFloat a)) ov s
                         else (Inr ov, s))
                      ov s) ov s
        = (Inr (ov + pairs_sum K t a (content s0 read)), s') \<and> extends s0 s'"
    by (simp add: extends_length [OF e al] pairs_sum_def)
qed

lemma triples_loop:
  assumes "extends s0 s" "\<forall>read \<in> set reads. allocated s0 read"
  shows "\<exists>s'. for_each reads
            (\<lambda>read ov s.
               for_each [0 ..< binary_read_length s read]
                 (\<lambda>i ov s.
                    for_each [i + 1 ..< binary_read_length s read]
                      (\<lambda>j ov s.
                         for_each [j + 1 ..< binary_read_length s read]
                           (\<lambda>k ov s.
                              if bit_at s read i \<and> bit_at s read j \<and> bit_at s read k
                              then add_false_positive K (PyNode t) read [i, j, k]
                                     (\<lambda>d. py_mul2 d (PyFloat a)) ov s
                              else (Inr ov, s))
                           ov s)
                      ov s)
                 ov s) ov s
          = (Inr (ov + (\<Sum>read\<leftarrow>reads. triples_sum K t a (content s0 read))), s') \<and> extends s0 s'"
proof (rule for_each_sum [where I = "extends s0"])
  show "extends s0 s" by fact
next
  fix read ov s
  assume r: "read \<in> set reads" and e: "extends s0 s"
  then have al: "allocated s0 read" using assms(2) by simp
  let ?n = "length (bits_of (content s0 read))"
  let ?b = "\<lambda>i. bits_of (content s0 read) ! i"
  let ?body = "\<lambda>i j k ov s.
                 if bit_at s read i \<and> bit_at s read j \<and> bit_at s read k
                 then add_false_positive K (PyNode t) read [i, j, k] (\<lambda>d. py_mul2 d (PyFloat a)) ov s
                 else (Inr ov, s)"
  let ?summand = "\<lambda>i j k. if ?b i \<and> ?b j \<and> ?b k
                 then distance K t (cleared (content s0 read) [i, j, k]) * a * a else 0"
  have inner: "\<exists>s'. for_each [j + 1 ..< binary_read_length s read] (?body i j) ov s
        = (Inr (ov + (\<Sum>k\<leftarrow>[j + 1 ..< ?n]. ?summand i j k)), s') \<and> extends s0 s'"
    if e': "extends s0 s" for i j ov s
    unfolding extends_length [OF e' al]
    by (rule guarded_loop [OF e' al])
       (simp_all add: py_mul2_def py_mul_def extends_bit_at [OF _ al])
  have middle: "\<exists>s'. for_each [i + 1 ..< binary_read_length s read]
           (\<lambda>j ov s. for_each [j + 1 ..< binary_read_length s read] (?body i j) ov s) ov s
        = (Inr (ov + (\<Sum>j\<leftarrow>[i + 1 ..< ?n]. \<Sum>k\<leftarrow>[j + 1 ..< ?n]. ?summand i j k)), s') \<and> extends s0 s'"
    if e': "extends s0 s" for i ov s
    unfolding extends_length [OF e' al]
    by (rule for_each_sum [where I = "extends s0"]) (use inner e' in auto)
  have "\<exists>s'. for_each [0 ..< ?n]
           (\<lambda>i ov s. for_each [i + 1 ..< binary_read_length s read]
              (\<lambda>j ov s. for_each [j + 1 ..< binary_read_length s read] (?body i j) ov s) ov s) ov s
        = (Inr (ov + (\<Sum>i\<leftarrow>[0 ..< ?n]. \<Sum>j\<leftarrow>[i + 1 ..< ?n]. \<Sum>k\<leftarrow>[j + 1 ..< ?n]. ?summand i j k)), s')
        \<and> extends s0 s'"
    by (rule for_each_sum [where I = "extends s0"]) (use middle e in auto)
  then show "\<exists>s'. for_each [0 ..< binary_read_length s read]
           (\<lambda>i ov s. for_each [i + 1 ..< binary_read_length s read]
              (\<lambda>j ov s. for_each [j + 1 ..< binary_read_length s read] (?body i j) ov s) ov s) ov s
        = (Inr (ov + triples_sum K t a (content s0 read)), s') \<and> extends s0 s'"
    by (simp add: extends_length [OF e al] triples_sum_def)
qed


lemma level1_typed:
  assumes "\<forall>read \<in> set reads. allocated s0 read"
  shows "\<exists>s'. dollo_evaluate_direct_level1 K reads (PyFloat a) (PyNode t) s0
          = (Inr (level0_sum K t (map (content s0) reads)
                  + (\<Sum>read\<leftarrow>reads. singles_sum K t a (content s0 read))), s')
          \<and> extends s0 s'"
  using singles_loop [OF extends_refl assms, of K t a "level0_sum K t (map (content s0) reads)"]
  by (simp add: dollo_evaluate_direct_level1_def level0_typed)

lemma level2_typed:
  assumes "\<forall>read \<in> set reads. allocated s0 read"
  shows "\<exists>s'. dollo_evaluate_direct_level2 K reads (PyFloat a) (PyNode t) s0
          = (Inr (level0_sum K t (map (content s0) reads)
                  + (\<Sum>read\<leftarrow>reads. singles_sum K t a (content s0 read))
                  + (\<Sum>read\<leftarrow>reads. pairs_sum K t a (content s0 read))), s')
          \<and> extends s0 s'"
proof -
  from level1_typed [OF assms, of K a t]
  obtain s1 where l1: "dollo_evaluate_direct_level1 K reads (PyFloat a) (PyNode t) s0
          = (Inr (level0_sum K t (map (content s0) reads)
                  + (\<Sum>read\<leftarrow>reads. singles_sum K t a (content s0 read))), s1)"
    and e1: "extends s0 s1" by blast
  show ?thesis
    using pairs_loop [OF e1 assms, of K t a]
    by (simp add: dollo_evaluate_direct_level2_def l1)
qed

lemma level3_typed:
  assumes "\<forall>read \<in> set reads. allocated s0 read"
  shows "\<exists>s'. dollo_evaluate_direct_level3 K reads (PyFloat a) (PyNode t) s0
          = (Inr (level0_sum K t (map (content s0) reads)
                  + (\<Sum>read\<leftarrow>reads. singles_sum K t a (content s0 read))
                  + (\<Sum>read\<leftarrow>reads. pairs_sum K t a (content s0 read))
                  + (\<Sum>read\<leftarrow>reads. triples_sum K t a (content s0 read))), s')
          \<and> extends s0 s'"
proof -
  from level2_typed [OF assms, of K a t]
  obtain s2 where l2: "dollo_evaluate_direct_level2 K reads (PyFloat a) (PyNode t) s0
          = (Inr (level0_sum K t (map (content s0) reads)
                  + (\<Sum>read\<leftarrow>reads. singles_sum K t a (content s0 read))
                  + (\<Sum>read\<leftarrow>reads. pairs_sum K t a (content s0 read))), s2)"
    and e2: "extends s0 s2" by blast
  show ?thesis
    using triples_loop [OF e2 assms, of K t a]
    by (simp add: dollo_evaluate_direct_level3_def l2)
qed

lemma level0_extends: "extends s (snd (dollo_evaluate_direct_level0 K reads alpha individual s))"
  unfolding dollo_evaluate_direct_level0_def
  by (rule for_each_extends) (simp add: extends_refl split: sum.splits prod.splits)

lemma case_extends:
  assumes "extends s (snd first)" "\<And>v s'. extends s' (snd (rest v s'))"
  shows "extends s (snd (case first of (Inl e, s') \<Rightarrow> (Inl e, s') | (Inr v, s') \<Rightarrow> rest v s'))"
  using assms by (auto split: prod.splits sum.splits intro: extends_trans)

lemma level1_extends: "extends s (snd (dollo_evaluate_direct_level1 K reads alpha individual s))"
  unfolding dollo_evaluate_direct_level1_def
  by (intro case_extends level0_extends for_each_extends)
     (simp add: add_false_positive_extends extends_refl)

lemma level2_extends: "extends s (snd (dollo_evaluate_direct_level2 K reads alpha individual s))"
  unfolding dollo_evaluate_direct_level2_def
  by (intro case_extends level1_extends for_each_extends)
     (simp add: add_false_positive_extends extends_refl)

lemma level3_extends: "extends s (snd (dollo_evaluate_direct_level3 K reads alpha individual s))"
  unfolding dollo_evaluate_direct_level3_def
  by (intro case_extends level2_extends for_each_extends)
     (simp add: add_false_positive_extends extends_refl)


lemma sum_list_nonneg_if:
  fixes f :: "'a \<Rightarrow> real"
  assumes "\<And>x. 0 \<le> f x"
  shows "0 \<le> (\<Sum>x\<leftarrow>xs. f x)"
  by (rule sum_list_nonneg) (use assms in auto)

lemma singles_sum_nonneg:
  assumes "0 \<le> a" "\<And>rc. 0 \<le> distance K t rc"
  shows "0 \<le> singles_sum K t a rc"
  unfolding singles_sum_def by (intro sum_list_nonneg_if) (simp add: assms)

lemma pairs_sum_nonneg:
  assumes "0 \<le> a" "\<And>rc. 0 \<le> distance K t rc"
  shows "0 \<le> pairs_sum K t a rc"
  unfolding pairs_sum_def by (intro sum_list_nonneg_if) (simp add: assms)

lemma triples_sum_nonneg:
  assumes "0 \<le> a" "\<And>rc. 0 \<le> distance K t rc"
  shows "0 \<le> triples_sum K t a rc"
  unfolding triples_sum_def by (intro sum_list_nonneg_if) (simp add: assms)

text \<open>
  Claim C4. For a weight \<open>alpha \<ge> 0\<close> and a tree whose closest-node distances are all
  non-negative, the four levels return values in increasing order: level 0 \<open>\<le>\<close> level 1
  \<open>\<le>\<close> level 2 \<open>\<le>\<close> level 3.
\<close>

theorem levels_increase:
  assumes "0 \<le> a" and "\<forall>rc. 0 \<le> distance K t rc" and "\<forall>read \<in> set reads. allocated s read"
  shows "\<exists>v0 v1 v2 v3.
           fst (dollo_evaluate_direct_level0 K reads (PyFloat a) (PyNode t) s) = Inr v0
         \<and> fst (dollo_evaluate_direct_level1 K reads (PyFloat a) (PyNode t) s) = Inr v1
         \<and> fst (dollo_evaluate_direct_level2 K reads (PyFloat a) (PyNode t) s) = Inr v2
         \<and> fst (dollo_evaluate_direct_level3 K reads (PyFloat a) (PyNode t) s) = Inr v3
         \<and> v0 \<le> v1 \<and> v1 \<le> v2 \<and> v2 \<le> v3"
proof -
  let ?v0 = "level0_sum K t (map (content s) reads)"
  let ?e1 = "\<Sum>read\<leftarrow>reads. singles_sum K t a (content s read)"
  let ?e2 = "\<Sum>read\<leftarrow>reads. pairs_sum K t a (content s read)"
  let ?e3 = "\<Sum>read\<leftarrow>reads. triples_sum K t a (content s read)"
  have d: "0 \<le> distance K t rc" for rc using assms(2) by blast
  have n1: "0 \<le> ?e1" by (intro sum_list_nonneg_if singles_sum_nonneg assms(1) d)
  have n2: "0 \<le> ?e2" by (intro sum_list_nonneg_if pairs_sum_nonneg assms(1) d)
  have n3: "0 \<le> ?e3" by (intro sum_list_nonneg_if triples_sum_nonneg assms(1) d)
  have l0: "fst (dollo_evaluate_direct_level0 K reads (PyFloat a) (PyNode t) s) = Inr ?v0"
    by (simp add: level0_typed)
  have l1: "fst (dollo_evaluate_direct_level1 K reads (PyFloat a) (PyNode t) s) = Inr (?v0 + ?e1)"
    using level1_typed [OF assms(3), of K a t] by auto
  have l2: "fst (dollo_evaluate_direct_level2 K reads (PyFloat a) (PyNode t) s)
              = Inr (?v0 + ?e1 + ?e2)"
    using level2_typed [OF assms(3), of K a t] by auto
  have l3: "fst (dollo_evaluate_direct_level3 K reads (PyFloat a) (PyNode t) s)
              = Inr (?v0 + ?e1 + ?e2 + ?e3)"
    using level3_typed [OF assms(3), of K a t] by auto
  show ?thesis
    using l0 l1 l2 l3 n1 n2 n3 by simp
qed

lemma triples_sum_as_set_sum:
  "triples_sum K t a rc
     = (\<Sum>(i, j, k) \<in> set_bit_triples (bits_of rc). distance K t (cleared rc [i, j, k]) * a\<^sup>2)"
proof -
  let ?n = "length (bits_of rc)"
  let ?b = "\<lambda>i. bits_of rc ! i"
  let ?h = "\<lambda>p. distance K t (cleared rc [fst p, fst (snd p), snd (snd p)]) * a\<^sup>2"
  let ?c = "\<lambda>p. ?b (fst p) \<and> ?b (fst (snd p)) \<and> ?b (snd (snd p))"
  let ?T = "SIGMA i:{0 ..< ?n}. SIGMA j:{i + 1 ..< ?n}. {j + 1 ..< ?n}"
  have "triples_sum K t a rc
      = (\<Sum>i \<in> {0 ..< ?n}. \<Sum>j \<in> {i + 1 ..< ?n}. \<Sum>k \<in> {j + 1 ..< ?n}.
           if ?c (i, j, k) then ?h (i, j, k) else 0)"
    by (simp add: triples_sum_def interv_sum_list_conv_sum_set_nat power2_eq_square mult.assoc
        cong: if_cong)
  also have "\<dots> = (\<Sum>i \<in> {0 ..< ?n}. \<Sum>(j, k) \<in> (SIGMA j:{i + 1 ..< ?n}. {j + 1 ..< ?n}).
           if ?c (i, j, k) then ?h (i, j, k) else 0)"
    by (simp add: sum.Sigma cong: if_cong)
  also have "\<dots> = (\<Sum>p \<in> ?T. if ?c p then ?h p else 0)"
    by (simp add: sum.Sigma split_def cong: if_cong)
  also have "\<dots> = (\<Sum>p \<in> {p \<in> ?T. ?c p}. ?h p)"
    by (rule sum.inter_filter [symmetric]) simp
  also have "{p \<in> ?T. ?c p} = set_bit_triples (bits_of rc)"
    by (auto simp: set_bit_triples_def)
  finally show ?thesis by (simp add: split_def)
qed

text \<open>
  Claim C5. Level 3 is level 2 plus, for each read and each triple of distinct positions
  whose bits are set in the read, the closest-node distance of the read with these three
  bits put to 0, times \<open>alpha\<^sup>2\<close> (the square, not the cube).
\<close>

theorem level3_is_level2_plus_triples:
  assumes "\<forall>read \<in> set reads. allocated s read"
  shows "\<exists>v2 v3.
           fst (dollo_evaluate_direct_level2 K reads (PyFloat a) (PyNode t) s) = Inr v2
         \<and> fst (dollo_evaluate_direct_level3 K reads (PyFloat a) (PyNode t) s) = Inr v3
         \<and> v3 = v2 + (\<Sum>read\<leftarrow>reads. \<Sum>(i, j, k) \<in> set_bit_triples (bits_of (content s read)).
                         distance K t (cleared (content s read) [i, j, k]) * a\<^sup>2)"
  using level2_typed [OF assms, of K a t] level3_typed [OF assms, of K a t]
  by (auto simp: triples_sum_as_set_sum)



lemma upt4: "[0..<4] = [0,1,2,3]" "[1..<4] = [1,2,3]" "[2..<4] = [2,3]" "[3..<4] = [3]" "[4..<4] = []"
  by (simp_all add: upt_rec)

lemma sample_content:
  "content sample_store sample_read = (''r0'', [True, True, True, True], [False, False, False, False])"
  by (simp add: content_def sample_store_def sample_read_def)

lemma sample_allocated: "allocated sample_store sample_read"
  by (simp add: allocated_def sample_store_def sample_read_def)

lemma sample_sums:
  "level0_sum sample_class sample_tree [content sample_store sample_read] = 4"
  "singles_sum sample_class sample_tree (1/2) (content sample_store sample_read) = 6"
  "pairs_sum sample_class sample_tree (1/2) (content sample_store sample_read) = 3"
  "triples_sum sample_class sample_tree (1/2) (content sample_store sample_read) = 1"
  by (simp_all add: level0_sum_def singles_sum_def pairs_sum_def triples_sum_def distance_def
      sample_class_def sample_distance_def sample_content bits_of_def cleared_def upt4)

lemma sample_levels:
  "fst (dollo_evaluate_direct_level0 sample_class [sample_read] (PyFloat (1/2)) (PyNode sample_tree) sample_store) = Inr 4"
  "fst (dollo_evaluate_direct_level1 sample_class [sample_read] (PyFloat (1/2)) (PyNode sample_tree) sample_store) = Inr 10"
  "fst (dollo_evaluate_direct_level2 sample_class [sample_read] (PyFloat (1/2)) (PyNode sample_tree) sample_store) = Inr 13"
  "fst (dollo_evaluate_direct_level3 sample_class [sample_read] (PyFloat (1/2)) (PyNode sample_tree) sample_store) = Inr 14"
proof -
  have al: "\<forall>read \<in> set [sample_read]. allocated sample_store read"
    by (simp add: sample_allocated)
  show "fst (dollo_evaluate_direct_level0 sample_class [sample_read] (PyFloat (1/2)) (PyNode sample_tree) sample_store) = Inr 4"
    by (simp add: level0_typed sample_sums)
  show "fst (dollo_evaluate_direct_level1 sample_class [sample_read] (PyFloat (1/2)) (PyNode sample_tree) sample_store) = Inr 10"
    using level1_typed [OF al, of sample_class "1/2" sample_tree] by (auto simp: sample_sums)
  show "fst (dollo_evaluate_direct_level2 sample_class [sample_read] (PyFloat (1/2)) (PyNode sample_tree) sample_store) = Inr 13"
    using level2_typed [OF al, of sample_class "1/2" sample_tree] by (auto simp: sample_sums)
  show "fst (dollo_evaluate_direct_level3 sample_class [sample_read] (PyFloat (1/2)) (PyNode sample_tree) sample_store) = Inr 14"
    using level3_typed [OF al, of sample_class "1/2" sample_tree] by (auto simp: sample_sums)
qed

text \<open>
  Claim C1. \<open>evaluate_dollo_node_individual(reads, individual, alpha)\<close> is meant to return
  the one-element tuple of \<open>dollo_evaluate_direct_level2(reads, alpha, individual)\<close>.
  It calls level 2 with \<open>individual\<close> in the place of \<open>alpha\<close> and \<open>alpha\<close> in the place
  of \<open>individual\<close>: as soon as there is a read, level 0 asks the number for
  \<open>closest_node_in_tree\<close> and the call ends in an AttributeError; only the empty
  list of reads gives a value. For the sample read, level 2 called in the order of its
  parameters returns 13.
\<close>

theorem evaluate_hands_individual_to_alpha:
  "fst (evaluate_dollo_node_individual K (read # reads) (PyNode t) (PyFloat a) s) = Inl AttributeError
 \<and> fst (evaluate_dollo_node_individual K [] (PyNode t) (PyFloat a) s) = Inr [0]
 \<and> fst (dollo_evaluate_direct_level2 sample_class [sample_read] (PyFloat (1/2)) (PyNode sample_tree)
          sample_store) = Inr 13"
proof -
  have "dollo_evaluate_direct_level0 K (read # reads) (PyNode t) (PyFloat a) s = (Inl AttributeError, s)"
    by (simp add: dollo_evaluate_direct_level0_def dolo_closest_node_distance_def)
  then have "fst (evaluate_dollo_node_individual K (read # reads) (PyNode t) (PyFloat a) s)
               = Inl AttributeError"
    by (simp add: evaluate_dollo_node_individual_def dollo_evaluate_direct_level2_def
        dollo_evaluate_direct_level1_def)
  moreover have "fst (evaluate_dollo_node_individual K [] (PyNode t) (PyFloat a) s) = Inr [0]"
    by (simp add: evaluate_dollo_node_individual_def dollo_evaluate_direct_level2_def
        dollo_evaluate_direct_level1_def dollo_evaluate_direct_level0_def)
  ultimately show ?thesis by (simp add: sample_levels)
qed

text \<open>The levels of the sample read for \<open>alpha = 1/2\<close>: from 4 up to 14.\<close>

theorem levels_increase_witness:
  "(0 :: real) \<le> 1/2 \<and> allocated sample_store sample_read
 \<and> (\<exists>v0 v1 v2 v3.
       fst (dollo_evaluate_direct_level0 sample_class [sample_read] (PyFloat (1/2)) (PyNode sample_tree) sample_store) = Inr v0
     \<and> fst (dollo_evaluate_direct_level1 sample_class [sample_read] (PyFloat (1/2)) (PyNode sample_tree) sample_store) = Inr v1
     \<and> fst (dollo_evaluate_direct_level2 sample_class [sample_read] (PyFloat (1/2)) (PyNode sample_tree) sample_store) = Inr v2
     \<and> fst (dollo_evaluate_direct_level3 sample_class [sample_read] (PyFloat (1/2)) (PyNode sample_tree) sample_store) = Inr v3
     \<and> v0 \<le> v1 \<and> v1 \<le> v2 \<and> v2 \<le> v3 \<and> v0 = 4 \<and> v3 = 14)"
proof -
  have d: "\<forall>rc. 0 \<le> distance sample_class sample_tree rc"
    by (simp add: distance_def sample_class_def sample_distance_def split: prod.splits)
  have al: "\<forall>read \<in> set [sample_read]. allocated sample_store read"
    by (simp add: sample_allocated)
  from levels_increase [of "1/2" sample_class sample_tree "[sample_read]" sample_store, OF _ d al]
  show ?thesis by (auto simp: sample_levels sample_allocated)
qed

text \<open>For the sample read, level 2 is 13 and the four triples add 1.\<close>

theorem level3_is_level2_plus_triples_witness:
  "allocated sample_store sample_read
 \<and> (\<exists>v2 v3.
       fst (dollo_evaluate_direct_level2 sample_class [sample_read] (PyFloat (1/2)) (PyNode sample_tree) sample_store) = Inr v2
     \<and> fst (dollo_evaluate_direct_level3 sample_class [sample_read] (PyFloat (1/2)) (PyNode sample_tree) sample_store) = Inr v3
     \<and> v3 = v2 + (\<Sum>read\<leftarrow>[sample_read].
                     \<Sum>(i, j, k) \<in> set_bit_triples (bits_of (content sample_store read)).
                       distance sample_class sample_tree (cleared (content sample_store read) [i, j, k]) * (1/2)\<^sup>2)
     \<and> v2 = 13 \<and> v3 = 14)"
proof -
  have al: "\<forall>read \<in> set [sample_read]. allocated sample_store read"
    by (simp add: sample_allocated)
  from level3_is_level2_plus_triples [OF al, of sample_class "1/2" sample_tree]
  show ?thesis
    by (auto simp: sample_levels sample_allocated)
qed

lemma perturbed_fields:
  "read_id (fst (perturbed read positions s)) = ''XXX2''"
  "binary_read (fst (perturbed read positions s)) = fresh s"
  "unknown_read (fst (perturbed read positions s)) = unknown_read read"
  by (simp_all add: perturbed_def BitArray_def)

lemma cleared_distance_cong:
  assumes "\<And>bits. distance K t (''XXX2'', bits, snd (snd rc)) = distance K' t (''XXX2'', bits, snd (snd rc))"
  shows "distance K t (cleared rc positions) = distance K' t (cleared rc positions)"
  using assms by (cases rc) (simp add: cleared_def)

lemma singles_sum_cong:
  assumes "\<And>bits. distance K t (''XXX2'', bits, snd (snd rc)) = distance K' t (''XXX2'', bits, snd (snd rc))"
  shows "singles_sum K t a rc = singles_sum K' t a rc"
  unfolding singles_sum_def by (simp add: cleared_distance_cong [OF assms] cong: if_cong)

lemma pairs_sum_cong:
  assumes "\<And>bits. distance K t (''XXX2'', bits, snd (snd rc)) = distance K' t (''XXX2'', bits, snd (snd rc))"
  shows "pairs_sum K t a rc = pairs_sum K' t a rc"
  unfolding pairs_sum_def by (simp add: cleared_distance_cong [OF assms] cong: if_cong)

lemma triples_sum_cong:
  assumes "\<And>bits. distance K t (''XXX2'', bits, snd (snd rc)) = distance K' t (''XXX2'', bits, snd (snd rc))"
  shows "triples_sum K t a rc = triples_sum K' t a rc"
  unfolding triples_sum_def by (simp add: cleared_distance_cong [OF assms] cong: if_cong)

text \<open>
  Claim C9. Evaluation at the levels 0 to 3 leaves every read as it was, whatever
  \<open>alpha\<close> and \<open>individual\<close> are and also when the evaluation ends in an exception:
  a read whose bit arrays exist shows the same bits and the same unknown positions
  afterwards. A perturbed read gets a new bit array, one that did not exist before,
  and building it leaves the read it comes from untouched.
\<close>

theorem evaluation_leaves_reads_unchanged:
  assumes "allocated s read"
  shows "content (snd (dollo_evaluate_direct_level0 K reads alpha individual s)) read = content s read
       \<and> content (snd (dollo_evaluate_direct_level1 K reads alpha individual s)) read = content s read
       \<and> content (snd (dollo_evaluate_direct_level2 K reads alpha individual s)) read = content s read
       \<and> content (snd (dollo_evaluate_direct_level3 K reads alpha individual s)) read = content s read
       \<and> content (snd (perturbed read positions s)) read = content s read
       \<and> \<not> binary_read (fst (perturbed read positions s)) < fresh s"
  using assms extends_content [OF level0_extends assms] extends_content [OF level1_extends assms]
    extends_content [OF level2_extends assms] extends_content [OF level3_extends assms]
    extends_content [OF perturbed_extends assms]
  by (simp add: perturbed_fields)

text \<open>
  Claim C10. Every perturbed read has the identifier \<open>XXX2\<close> and, as its unknown
  positions, the very bit array of the read it comes from; what it shows is the read's
  bits with the chosen positions put to 0 beside the read's own unknown positions.
  So the levels 1, 2 and 3 ask the tree for distances of the given reads and of reads
  named \<open>XXX2\<close> that carry the unknown positions of a given read, and of no others:
  two implementations of \<open>closest_node_in_tree\<close> that agree on these give the same
  results.
\<close>

theorem perturbed_reads_carry_XXX2_and_the_unknown_mask:
  assumes "\<forall>read \<in> set reads. allocated s read"
    and "\<forall>read \<in> set reads. distance K t (content s read) = distance K' t (content s read)"
    and "\<forall>read \<in> set reads. \<forall>bits.
           distance K t (''XXX2'', bits, cells s (unknown_read read))
         = distance K' t (''XXX2'', bits, cells s (unknown_read read))"
  shows "(\<forall>read \<in> set reads. \<forall>positions.
            read_id (fst (perturbed read positions s)) = ''XXX2''
          \<and> unknown_read (fst (perturbed read positions s)) = unknown_read read
          \<and> content (snd (perturbed read positions s)) (fst (perturbed read positions s))
              = (''XXX2'', fold (\<lambda>i b. b[i := False]) positions (cells s (binary_read read)),
                 cells s (unknown_read read)))
       \<and> fst (dollo_evaluate_direct_level1 K reads (PyFloat a) (PyNode t) s)
           = fst (dollo_evaluate_direct_level1 K' reads (PyFloat a) (PyNode t) s)
       \<and> fst (dollo_evaluate_direct_level2 K reads (PyFloat a) (PyNode t) s)
           = fst (dollo_evaluate_direct_level2 K' reads (PyFloat a) (PyNode t) s)
       \<and> fst (dollo_evaluate_direct_level3 K reads (PyFloat a) (PyNode t) s)
           = fst (dollo_evaluate_direct_level3 K' reads (PyFloat a) (PyNode t) s)"
proof -
  have u: "snd (snd (content s read)) = cells s (unknown_read read)" for read
    by (simp add: content_def)
  have e0: "level0_sum K t (map (content s) reads) = level0_sum K' t (map (content s) reads)"
    unfolding level0_sum_def using assms(2) by (simp cong: map_cong)
  have e1: "(\<Sum>read\<leftarrow>reads. singles_sum K t a (content s read))
          = (\<Sum>read\<leftarrow>reads. singles_sum K' t a (content s read))"
    by (rule arg_cong [where f = sum_list], rule map_cong [OF refl], rule singles_sum_cong)
       (use assms(3) u in simp)
  have e2: "(\<Sum>read\<leftarrow>reads. pairs_sum K t a (content s read))
          = (\<Sum>read\<leftarrow>reads. pairs_sum K' t a (content s read))"
    by (rule arg_cong [where f = sum_list], rule map_cong [OF refl], rule pairs_sum_cong)
       (use assms(3) u in simp)
  have e3: "(\<Sum>read\<leftarrow>reads. triples_sum K t a (content s read))
          = (\<Sum>read\<leftarrow>reads. triples_sum K' t a (content s read))"
    by (rule arg_cong [where f = sum_list], rule map_cong [OF refl], rule triples_sum_cong)
       (use assms(3) u in simp)
  have p: "content (snd (perturbed read positions s)) (fst (perturbed read positions s))
              = (''XXX2'', fold (\<lambda>i b. b[i := False]) positions (cells s (binary_read read)),
                 cells s (unknown_read read))"
    if "read \<in> set reads" for read positions
    using perturbed_content [of s read positions] assms(1) that
    by (simp add: cleared_def content_def)
  have l1: "fst (dollo_evaluate_direct_level1 K reads (PyFloat a) (PyNode t) s)
           = fst (dollo_evaluate_direct_level1 K' reads (PyFloat a) (PyNode t) s)"
    using level1_typed [OF assms(1), of K a t] level1_typed [OF assms(1), of K' a t] e0 e1
    by auto
  have l2: "fst (dollo_evaluate_direct_level2 K reads (PyFloat a) (PyNode t) s)
           = fst (dollo_evaluate_direct_level2 K' reads (PyFloat a) (PyNode t) s)"
    using level2_typed [OF assms(1), of K a t] level2_typed [OF assms(1), of K' a t] e0 e1 e2
    by auto
  have l3: "fst (dollo_evaluate_direct_level3 K reads (PyFloat a) (PyNode t) s)
           = fst (dollo_evaluate_direct_level3 K' reads (PyFloat a) (PyNode t) s)"
    using level3_typed [OF assms(1), of K a t] level3_typed [OF assms(1), of K' a t] e0 e1 e2 e3
    by auto
  show ?thesis
    using p l1 l2 l3 by (simp add: perturbed_fields)
qed


text \<open>The sample read after each level and after a perturbation at the positions 0
  and 2, whose bit array is the new object 2.\<close>

theorem evaluation_leaves_reads_unchanged_witness:
  "allocated sample_store sample_read
 \<and> content (snd (dollo_evaluate_direct_level0 sample_class [sample_read] (PyFloat (1/2))
                   (PyNode sample_tree) sample_store)) sample_read
     = (''r0'', [True, True, True, True], [False, False, False, False])
 \<and> content (snd (dollo_evaluate_direct_level1 sample_class [sample_read] (PyFloat (1/2))
                   (PyNode sample_tree) sample_store)) sample_read
     = (''r0'', [True, True, True, True], [False, False, False, False])
 \<and> content (snd (dollo_evaluate_direct_level2 sample_class [sample_read] (PyFloat (1/2))
                   (PyNode sample_tree) sample_store)) sample_read
     = (''r0'', [True, True, True, True], [False, False, False, False])
 \<and> content (snd (dollo_evaluate_direct_level3 sample_class [sample_read] (PyFloat (1/2))
                   (PyNode sample_tree) sample_store)) sample_read
     = (''r0'', [True, True, True, True], [False, False, False, False])
 \<and> content (snd (perturbed sample_read [0, 2] sample_store)) sample_read
     = (''r0'', [True, True, True, True], [False, False, False, False])
 \<and> binary_read (fst (perturbed sample_read [0, 2] sample_store)) = 2
 \<and> fresh sample_store = 2"
  using evaluation_leaves_reads_unchanged [OF sample_allocated, of sample_class "[sample_read]"
      "PyFloat (1/2)" "PyNode sample_tree" "[0, 2]"]
  by (simp add: sample_content sample_allocated perturbed_fields) (simp add: sample_store_def)

text \<open>A second implementation that answers 99 for every read that is neither the
  sample read nor named \<open>XXX2\<close> gives the same level 3.\<close>

theorem perturbed_reads_carry_XXX2_and_the_unknown_mask_witness:
  "allocated sample_store sample_read
 \<and> read_id (fst (perturbed sample_read [0, 2] sample_store)) = ''XXX2''
 \<and> unknown_read (fst (perturbed sample_read [0, 2] sample_store)) = unknown_read sample_read
 \<and> content (snd (perturbed sample_read [0, 2] sample_store)) (fst (perturbed sample_read [0, 2] sample_store))
     = (''XXX2'', [False, True, False, True], [False, False, False, False])
 \<and> fst (dollo_evaluate_direct_level3
           (sample_class\<lparr>closest_node_in_tree :=
              (\<lambda>t rc. if fst rc = ''XXX2'' \<or> fst rc = ''r0'' then sample_distance t rc else ([], 99))\<rparr>)
           [sample_read] (PyFloat (1/2)) (PyNode sample_tree) sample_store) = Inr 14"
proof -
  let ?K = "sample_class\<lparr>closest_node_in_tree :=
              (\<lambda>t rc. if fst rc = ''XXX2'' \<or> fst rc = ''r0'' then sample_distance t rc else ([], 99))\<rparr>"
  have al: "\<forall>read \<in> set [sample_read]. allocated sample_store read"
    by (simp add: sample_allocated)
  have d0: "\<forall>read \<in> set [sample_read].
              distance sample_class sample_tree (content sample_store read)
            = distance ?K sample_tree (content sample_store read)"
    by (simp add: distance_def sample_class_def sample_content)
  have d2: "\<forall>read \<in> set [sample_read]. \<forall>bits.
              distance sample_class sample_tree (''XXX2'', bits, cells sample_store (unknown_read read))
            = distance ?K sample_tree (''XXX2'', bits, cells sample_store (unknown_read read))"
    by (simp add: distance_def sample_class_def)
  from perturbed_reads_carry_XXX2_and_the_unknown_mask [OF al d0 d2, of "1/2"]
  have c: "content (snd (perturbed sample_read [0, 2] sample_store)) (fst (perturbed sample_read [0, 2] sample_store))
          = (''XXX2'', fold (\<lambda>i b. b[i := False]) [0, 2] (cells sample_store (binary_read sample_read)),
             cells sample_store (unknown_read sample_read))"
    and l: "fst (dollo_evaluate_direct_level3 sample_class [sample_read] (PyFloat (1/2)) (PyNode sample_tree) sample_store)
       = fst (dollo_evaluate_direct_level3 ?K [sample_read] (PyFloat (1/2)) (PyNode sample_tree) sample_store)"
    by simp_all
  have b: "(cells sample_store (binary_read sample_read))[0 := False, 2 := False]
             = [False, True, False, True]"
    "cells sample_store (unknown_read sample_read) = [False, False, False, False]"
    by (simp_all add: sample_store_def sample_read_def)
  show ?thesis
    using c l by (simp add: b sample_levels sample_allocated perturbed_fields)
qed

section \<open>Properties of crossover and mutation\<close>

lemma plus_labels_inner:
  assumes "[] \<notin> set s"
  shows "\<exists>ret'. for_each s
           (\<lambda>x ret u. if x = [] then (Inl IndexError, u)
                       else if last x = CHR ''+'' then (Inr (List.insert x ret), u)
                       else (Inr ret, u)) ret ()
         = (Inr ret', ()) \<and> set ret' = set ret \<union> {x \<in> set s. last x = CHR ''+''}"
  using assms
proof (induction s arbitrary: ret)
  case Nil
  then show ?case by simp
next
  case (Cons x s)
  then have x: "x \<noteq> []" and s: "[] \<notin> set s" by auto
  show ?case
  proof (cases "last x = CHR ''+''")
    case True
    from Cons.IH [OF s, of "List.insert x ret"] True x show ?thesis by auto
  next
    case False
    from Cons.IH [OF s, of ret] False x show ?thesis by auto
  qed
qed

lemma plus_labels_outer:
  assumes "\<forall>s \<in> set covered. [] \<notin> set s"
  shows "\<exists>ret'. for_each covered
           (\<lambda>s ret u.
               for_each s
                 (\<lambda>x ret u. if x = [] then (Inl IndexError, u)
                             else if last x = CHR ''+'' then (Inr (List.insert x ret), u)
                             else (Inr ret, u))
                 ret u) ret ()
         = (Inr ret', ()) \<and> set ret' = set ret \<union> {x \<in> \<Union> (set ` set covered). last x = CHR ''+''}"
  using assms
proof (induction covered arbitrary: ret)
  case Nil
  then show ?case by simp
next
  case (Cons s covered)
  then have s: "[] \<notin> set s" and c: "\<forall>s \<in> set covered. [] \<notin> set s" by auto
  from plus_labels_inner [OF s, of ret] obtain ret1 where
    r1: "for_each s
           (\<lambda>x ret u. if x = [] then (Inl IndexError, u)
                       else if last x = CHR ''+'' then (Inr (List.insert x ret), u)
                       else (Inr ret, u)) ret ()
         = (Inr ret1, ())" and s1: "set ret1 = set ret \<union> {x \<in> set s. last x = CHR ''+''}"
    by blast
  from Cons.IH [OF c, of ret1] r1 s1 show ?case by auto
qed

lemma set_consits_of_plus_lebels_ok:
  assumes "\<forall>s \<in> set covered. [] \<notin> set s"
  shows "\<exists>xs. set_consits_of_plus_lebels covered = Inr xs
            \<and> set xs = {x \<in> \<Union> (set ` set covered). last x = CHR ''+''}"
  using plus_labels_outer [OF assms, of "[]"]
  by (auto simp: set_consits_of_plus_lebels_def)

lemma sets_are_equal_iff: "sets_are_equal xs ys \<longleftrightarrow> set xs = set ys"
  by (auto simp: sets_are_equal_def)

lemma search_find_one:
  assumes "length (matched tree lab) = 1"
  shows "search_find tree lab = Inr (Some (hd (matched tree lab)))"
proof -
  from assms obtain n where "matched tree lab = [n]"
    by (cases "matched tree lab") auto
  then show ?thesis by (simp add: search_find_def matched_def)
qed

lemma exchange_loop_find:
  assumes "\<And>lab. lab \<in> set ls \<Longrightarrow> body lab w = (if Q lab then (Inr True, done lab) else (Inr False, w))"
  shows "exchange_loop body ls w
           = (case find Q ls of None \<Rightarrow> (Inr False, w) | Some lab \<Rightarrow> (Inr True, done lab))"
  using assms by (induction ls) auto


lemma exchange_at_qualifies:
  assumes p1: "part1 = tree_get_partition K (objs w r1) Map.empty"
    and p2: "part2 = tree_get_partition K (objs w r2) Map.empty"
    and wf1: "\<And>covered. part1 (lab0 @ ''+'') = Some covered \<Longrightarrow> \<forall>s \<in> set covered. [] \<notin> set s"
    and wf2: "\<And>covered. part2 (lab0 @ ''+'') = Some covered \<Longrightarrow> \<forall>s \<in> set covered. [] \<notin> set s"
    and one: "lab0 @ ''+'' \<in> dom part1 \<Longrightarrow> lab0 @ ''+'' \<in> dom part2 \<Longrightarrow>
                length (matched (objs w r1) (lab0 @ ''+'')) = 1
              \<and> length (matched (objs w r2) (lab0 @ ''+'')) = 1"
  shows "exchange_at K labels part1 part2 r1 r2 lab0 w =
     (if qualifies K (objs w r1) (objs w r2) lab0
      then (Inr True,
            w\<lparr>objs := (objs w)
               (r1 := fst (exchange_parents K labels
                            (objs w r1) (hd (matched (objs w r1) (lab0 @ ''+'')))
                            (objs w r2) (hd (matched (objs w r2) (lab0 @ ''+'')))),
                r2 := snd (exchange_parents K labels
                            (objs w r1) (hd (matched (objs w r1) (lab0 @ ''+'')))
                            (objs w r2) (hd (matched (objs w r2) (lab0 @ ''+'')))))\<rparr>)
      else (Inr False, w))"
proof (cases "part1 (lab0 @ ''+'')")
  case None
  then show ?thesis
    using p1 by (auto simp: exchange_at_def qualifies_def Let_def)
next
  case (Some covered1)
  from set_consits_of_plus_lebels_ok [OF wf1 [OF Some]] obtain xs1 where
    x1: "set_consits_of_plus_lebels covered1 = Inr xs1"
    and s1: "set xs1 = plus_coverage part1 (lab0 @ ''+'')"
    by (auto simp: plus_coverage_def Some)
  show ?thesis
  proof (cases "part2 (lab0 @ ''+'')")
    case None
    then show ?thesis
      using p2 Some x1 by (auto simp: exchange_at_def qualifies_def Let_def)
  next
    case Some2: (Some covered2)
    from set_consits_of_plus_lebels_ok [OF wf2 [OF Some2]] obtain xs2 where
      x2: "set_consits_of_plus_lebels covered2 = Inr xs2"
      and s2: "set xs2 = plus_coverage part2 (lab0 @ ''+'')"
      by (auto simp: plus_coverage_def Some2)
    have d: "lab0 @ ''+'' \<in> dom part1" "lab0 @ ''+'' \<in> dom part2"
      using Some Some2 by auto
    from one [OF d] have
      f1: "search_find (objs w r1) (lab0 @ ''+'') = Inr (Some (hd (matched (objs w r1) (lab0 @ ''+''))))"
      and f2: "search_find (objs w r2) (lab0 @ ''+'') = Inr (Some (hd (matched (objs w r2) (lab0 @ ''+''))))"
      by (simp_all add: search_find_one)
    have e1: "xs1 = [] \<longleftrightarrow> plus_coverage part1 (lab0 @ ''+'') = {}"
      using s1 by auto
    have e2: "xs2 = [] \<longleftrightarrow> plus_coverage part2 (lab0 @ ''+'') = {}"
      using s2 by auto
    have q: "qualifies K (objs w r1) (objs w r2) lab0 \<longleftrightarrow>
               xs1 \<noteq> [] \<and> xs2 \<noteq> [] \<and> sets_are_equal xs1 xs2
             \<and> \<not> tree_is_equal K (snd (hd (matched (objs w r1) (lab0 @ ''+''))))
                                   (snd (hd (matched (objs w r2) (lab0 @ ''+''))))"
      using d e1 e2 s1 s2 p1 p2 by (simp add: qualifies_def Let_def sets_are_equal_iff)
    show ?thesis
      unfolding q
      by (simp add: exchange_at_def Let_def Some Some2 x1 x2 f1 f2 split_def)
  qed
qed


lemma exchange_at_frame:
  assumes "exchange_at K labels part1 part2 r1 r2 lab0 w = (res, w')"
  shows "(res \<noteq> Inr True \<longrightarrow> w' = w)
       \<and> (\<forall>i. i \<noteq> r1 \<and> i \<noteq> r2 \<longrightarrow> objs w' i = objs w i)
       \<and> next_obj w' = next_obj w \<and> draws w' = draws w \<and> drawn w' = drawn w"
  using assms unfolding exchange_at_def Let_def
  by (auto split: option.splits sum.splits if_splits prod.splits)

lemma exchange_loop_frame:
  assumes "exchange_loop (exchange_at K labels part1 part2 r1 r2) ls w = (res, w')"
  shows "(res \<noteq> Inr True \<longrightarrow> w' = w)
       \<and> (\<forall>i. i \<noteq> r1 \<and> i \<noteq> r2 \<longrightarrow> objs w' i = objs w i)
       \<and> next_obj w' = next_obj w \<and> draws w' = draws w \<and> drawn w' = drawn w"
  using assms
proof (induction ls arbitrary: w)
  case Nil
  then show ?case by auto
next
  case (Cons lab ls)
  obtain r0 w0 where b: "exchange_at K labels part1 part2 r1 r2 lab w = (r0, w0)"
    by (cases "exchange_at K labels part1 part2 r1 r2 lab w")
  note f = exchange_at_frame [OF b]
  show ?case
  proof (cases "r0 = Inr False")
    case True
    with f have "w0 = w" by simp
    with Cons.prems b True have "exchange_loop (exchange_at K labels part1 part2 r1 r2) ls w = (res, w')"
      by simp
    from Cons.IH [OF this] show ?thesis .
  next
    case False
    with Cons.prems b have "res = r0" "w' = w0"
      by (auto split: sum.splits bool.splits)
    with f show ?thesis by simp
  qed
qed

lemma deepcopy_twice:
  assumes "i1 < next_obj w" "i2 < next_obj w"
    and "deepcopy i1 w = (r1, w1)" "deepcopy i2 w1 = (r2, w2)"
  shows "r1 = next_obj w" "r2 = Suc (next_obj w)" "next_obj w2 = Suc (Suc (next_obj w))"
    "objs w2 r1 = objs w i1" "objs w2 r2 = objs w i2"
    "\<And>i. i < next_obj w \<Longrightarrow> objs w2 i = objs w i"
    "draws w2 = draws w" "drawn w2 = drawn w"
  using assms by (auto simp: deepcopy_def)


lemma subtrees_unequal:
  assumes ne: "\<not> tree_is_equal K (objs w individual1) (objs w individual2)"
    and al: "individual1 < next_obj w" "individual2 < next_obj w"
    and wf1: "labels_well_formed (tree_get_partition K (objs w individual1) Map.empty) labels"
    and wf2: "labels_well_formed (tree_get_partition K (objs w individual2) Map.empty) labels"
    and one: "keys_name_one_node K (objs w individual1) (objs w individual2) labels"
  shows "\<exists>w'. dollo_crossover_exchange_subtrees K labels individual1 individual2 w
            = (Inr (find (qualifies K (objs w individual1) (objs w individual2)) labels \<noteq> None,
                    next_obj w, Suc (next_obj w)), w')
          \<and> (objs w' (next_obj w), objs w' (Suc (next_obj w)))
            = (case find (qualifies K (objs w individual1) (objs w individual2)) labels of
                 None \<Rightarrow> (objs w individual1, objs w individual2)
               | Some lab0 \<Rightarrow>
                   exchange_parents K labels
                     (objs w individual1) (hd (matched (objs w individual1) (lab0 @ ''+'')))
                     (objs w individual2) (hd (matched (objs w individual2) (lab0 @ ''+''))))
          \<and> objs w' individual1 = objs w individual1 \<and> objs w' individual2 = objs w individual2
          \<and> next_obj w' = Suc (Suc (next_obj w)) \<and> draws w' = draws w \<and> drawn w' = drawn w"
proof -
  obtain r1 w1 where c1: "deepcopy individual1 w = (r1, w1)" by (cases "deepcopy individual1 w")
  obtain r2 w2 where c2: "deepcopy individual2 w1 = (r2, w2)" by (cases "deepcopy individual2 w1")
  note dc = deepcopy_twice [OF al c1 c2]
  let ?T1 = "objs w individual1" and ?T2 = "objs w individual2"
  let ?part1 = "tree_get_partition K ?T1 Map.empty" and ?part2 = "tree_get_partition K ?T2 Map.empty"
  let ?X = "\<lambda>lab0. exchange_parents K labels ?T1 (hd (matched ?T1 (lab0 @ ''+'')))
                      ?T2 (hd (matched ?T2 (lab0 @ ''+'')))"
  let ?done = "\<lambda>lab0. w2\<lparr>objs := (objs w2)(r1 := fst (?X lab0), r2 := snd (?X lab0))\<rparr>"
  have body: "exchange_at K labels ?part1 ?part2 r1 r2 lab0 w2
        = (if qualifies K ?T1 ?T2 lab0 then (Inr True, ?done lab0) else (Inr False, w2))"
    if "lab0 \<in> set labels" for lab0
  proof -
    have a: "?part1 = tree_get_partition K (objs w2 r1) Map.empty"
      and b: "?part2 = tree_get_partition K (objs w2 r2) Map.empty"
      by (simp_all only: dc(4,5))
    have c: "\<forall>s \<in> set covered. [] \<notin> set s" if "?part1 (lab0 @ ''+'') = Some covered" for covered
      using wf1 that \<open>lab0 \<in> set labels\<close> unfolding labels_well_formed_def by blast
    have d: "\<forall>s \<in> set covered. [] \<notin> set s" if "?part2 (lab0 @ ''+'') = Some covered" for covered
      using wf2 that \<open>lab0 \<in> set labels\<close> unfolding labels_well_formed_def by blast
    have e: "length (matched (objs w2 r1) (lab0 @ ''+'')) = 1
           \<and> length (matched (objs w2 r2) (lab0 @ ''+'')) = 1"
      if "lab0 @ ''+'' \<in> dom ?part1" "lab0 @ ''+'' \<in> dom ?part2"
      using one that \<open>lab0 \<in> set labels\<close> unfolding keys_name_one_node_def dc(4,5) by blast
    from exchange_at_qualifies [OF a b c d e, of labels]
    show ?thesis unfolding dc(4,5) by simp
  qed
  have loop: "exchange_loop (exchange_at K labels ?part1 ?part2 r1 r2) labels w2
        = (case find (qualifies K ?T1 ?T2) labels of
             None \<Rightarrow> (Inr False, w2) | Some lab0 \<Rightarrow> (Inr True, ?done lab0))"
    by (rule exchange_loop_find) (rule body)
  have r: "r1 \<noteq> r2" "individual1 \<noteq> r1" "individual1 \<noteq> r2" "individual2 \<noteq> r1" "individual2 \<noteq> r2"
    using dc(1,2) al by auto
  have k: "objs w2 individual1 = ?T1" "objs w2 individual2 = ?T2"
    using dc(6) al by auto
  show ?thesis
    using ne c1 c2 loop dc(1-5,7,8) r k
    by (auto simp: dollo_crossover_exchange_subtrees_def split: option.splits)
qed

lemma edge_returns:
  assumes ne: "\<not> tree_is_equal K (objs w individual1) (objs w individual2)"
    and al: "individual1 < next_obj w" "individual2 < next_obj w"
    and r: "dollo_crossover_exchange_edge K labels individual1 individual2 w = (Inr (ok, r1, r2), w')"
  shows "ok \<and> r1 = next_obj w \<and> r2 = Suc (next_obj w)
       \<and> objs w' r1 = objs w individual1 \<and> objs w' r2 = objs w individual2
       \<and> objs w' individual1 = objs w individual1 \<and> objs w' individual2 = objs w individual2
       \<and> next_obj w' = Suc (Suc (next_obj w))"
proof -
  obtain c1 w1 where c1: "deepcopy individual1 w = (c1, w1)" by (cases "deepcopy individual1 w")
  obtain c2 w2 where c2: "deepcopy individual2 w1 = (c2, w2)" by (cases "deepcopy individual2 w1")
  note dc = deepcopy_twice [OF al c1 c2]
  have k: "objs w2 individual1 = objs w individual1" "objs w2 individual2 = objs w individual2"
    using dc(6) al by auto
  from r ne c1 c2 have "ok \<and> r1 = c1 \<and> r2 = c2 \<and> objs w' = objs w2 \<and> next_obj w' = next_obj w2"
    by (auto simp: dollo_crossover_exchange_edge_def random_choice_def random_random_def Let_def
        split: if_splits sum.splits prod.splits)
  with dc(1-5) k show ?thesis by simp
qed

lemma edge_succeeds:
  assumes ne: "\<not> tree_is_equal K (objs w individual1) (objs w individual2)"
    and al: "individual1 < next_obj w" "individual2 < next_obj w"
    and l: "labels \<noteq> []"
    and g1: "gained_once (objs w individual1) labels"
    and g2: "gained_once (objs w individual2) labels"
  shows "\<exists>w'. dollo_crossover_exchange_edge K labels individual1 individual2 w
            = (Inr (True, next_obj w, Suc (next_obj w)), w')"
proof -
  obtain c1 w1 where c1: "deepcopy individual1 w = (c1, w1)" by (cases "deepcopy individual1 w")
  obtain c2 w2 where c2: "deepcopy individual2 w1 = (c2, w2)" by (cases "deepcopy individual2 w1")
  note dc = deepcopy_twice [OF al c1 c2]
  let ?lab = "labels ! (draws w2 (drawn w2) mod length labels)"
  let ?w3 = "w2\<lparr>drawn := Suc (drawn w2)\<rparr>"
  have m: "?lab \<in> set labels" using l by simp
  have rc: "random_choice labels w2 = (Inr ?lab, ?w3)"
    using l by (simp add: random_choice_def)
  obtain x w4 where rr: "random_random ?w3 = (x, w4)" by (cases "random_random ?w3")
  then have o4: "objs w4 = objs w2" by (auto simp: random_random_def)
  have f1: "search_find (objs w4 c1) (?lab @ ''+'')
              = Inr (Some (hd (matched (objs w individual1) (?lab @ ''+''))))"
    using g1 m dc(4) o4 by (simp add: gained_once_def search_find_one)
  have f2: "search_find (objs w4 c2) (?lab @ ''+'')
              = Inr (Some (hd (matched (objs w individual2) (?lab @ ''+''))))"
    using g2 m dc(5) o4 by (simp add: gained_once_def search_find_one)
  show ?thesis
    using ne c1 c2 rc rr f1 f2 dc(1,2)
    by (simp add: dollo_crossover_exchange_edge_def Let_def)
qed


lemma subtrees_returns:
  assumes ne: "\<not> tree_is_equal K (objs w individual1) (objs w individual2)"
    and al: "individual1 < next_obj w" "individual2 < next_obj w"
    and r: "dollo_crossover_exchange_subtrees K labels individual1 individual2 w = (Inr (ok, r1, r2), w')"
  shows "r1 = next_obj w \<and> r2 = Suc (next_obj w)
       \<and> objs w' individual1 = objs w individual1 \<and> objs w' individual2 = objs w individual2
       \<and> (\<not> ok \<longrightarrow> objs w' r1 = objs w individual1 \<and> objs w' r2 = objs w individual2)
       \<and> next_obj w' = Suc (Suc (next_obj w))"
proof -
  obtain c1 w1 where c1: "deepcopy individual1 w = (c1, w1)" by (cases "deepcopy individual1 w")
  obtain c2 w2 where c2: "deepcopy individual2 w1 = (c2, w2)" by (cases "deepcopy individual2 w1")
  note dc = deepcopy_twice [OF al c1 c2]
  have k: "objs w2 individual1 = objs w individual1" "objs w2 individual2 = objs w individual2"
    using dc(6) al by auto
  let ?part1 = "tree_get_partition K (objs w2 c1) Map.empty"
  let ?part2 = "tree_get_partition K (objs w2 c2) Map.empty"
  from r ne c1 c2 have l: "exchange_loop (exchange_at K labels ?part1 ?part2 c1 c2) labels w2 = (Inr ok, w')"
    and rr: "r1 = c1" "r2 = c2"
    by (auto simp: dollo_crossover_exchange_subtrees_def Let_def split: sum.splits prod.splits)
  note f = exchange_loop_frame [OF l]
  have d: "individual1 \<noteq> c1" "individual1 \<noteq> c2" "individual2 \<noteq> c1" "individual2 \<noteq> c2"
    using dc(1,2) al by auto
  from f d have u: "objs w' individual1 = objs w2 individual1" "objs w' individual2 = objs w2 individual2"
    by auto
  from f have n: "\<not> ok \<longrightarrow> w' = w2" by auto
  show ?thesis
    using rr dc(1-5) k u n f by auto
qed

text \<open>
  Claim C2, as the code has it. When the two parents are not equal trees, the individuals
  that subtree exchange and edge exchange return are two new objects: neither is one of
  the parents, neither existed before the call, and the parents hold the trees they held.
  On the path where no label qualifies (\<open>success = False\<close>) the new objects hold copies
  of the parents' trees. (For equal trees the parents themselves come back, see below.)
\<close>

theorem crossover_returns_copies_of_unequal_trees:
  assumes "\<not> tree_is_equal K (objs w individual1) (objs w individual2)"
    and "individual1 < next_obj w" and "individual2 < next_obj w"
    and "strategy = dollo_crossover_exchange_subtrees \<or> strategy = dollo_crossover_exchange_edge"
    and "strategy K labels individual1 individual2 w = (Inr (ok, r1, r2), w')"
  shows "r1 \<noteq> individual1 \<and> r1 \<noteq> individual2 \<and> r2 \<noteq> individual1 \<and> r2 \<noteq> individual2
       \<and> r1 \<noteq> r2 \<and> \<not> r1 < next_obj w \<and> \<not> r2 < next_obj w
       \<and> objs w' individual1 = objs w individual1 \<and> objs w' individual2 = objs w individual2
       \<and> (\<not> ok \<longrightarrow> objs w' r1 = objs w individual1 \<and> objs w' r2 = objs w individual2)"
  using assms(4)
proof
  assume "strategy = dollo_crossover_exchange_subtrees"
  with assms(5) have "dollo_crossover_exchange_subtrees K labels individual1 individual2 w
                        = (Inr (ok, r1, r2), w')" by simp
  from subtrees_returns [OF assms(1-3) this] assms(2,3) show ?thesis by auto
next
  assume "strategy = dollo_crossover_exchange_edge"
  with assms(5) have "dollo_crossover_exchange_edge K labels individual1 individual2 w
                        = (Inr (ok, r1, r2), w')" by simp
  from edge_returns [OF assms(1-3) this] assms(2,3) show ?thesis by auto
qed

text \<open>
  Claim C3, as the code has it. For two parents that are equal trees, both strategies
  fail at once: each returns \<open>success = False\<close> with the two parents themselves, makes
  no copy and changes nothing.
\<close>

theorem crossover_of_equal_trees_returns_the_inputs:
  assumes "tree_is_equal K (objs w individual1) (objs w individual2)"
  shows "dollo_crossover_exchange_subtrees K labels individual1 individual2 w
           = (Inr (False, individual1, individual2), w)
       \<and> dollo_crossover_exchange_edge K labels individual1 individual2 w
           = (Inr (False, individual1, individual2), w)"
  using assms
  by (simp add: dollo_crossover_exchange_subtrees_def dollo_crossover_exchange_edge_def)

text \<open>
  Claim C6, as the code has it. For parents that are not equal trees and tree methods
  that behave as stated at the end, subtree exchange goes through the
  labels in the order of the list and exchanges at the first label that qualifies: its
  plus variant is a key of both partition maps, the two sets of covered plus labels are
  not empty and are equal, and the two subtrees found are not equal. It then returns
  \<open>True\<close> with the two copies after the exchange. When no label of the list qualifies it
  returns \<open>False\<close> with the two copies, which hold the parents' trees.
  The conditions: the labels in the partition maps are not empty strings, and a plus
  label that is a key of both maps labels exactly one node in each tree. Without them
  the call can end in an exception.
\<close>

theorem subtree_exchange_at_first_qualifying_label:
  assumes "\<not> tree_is_equal K (objs w individual1) (objs w individual2)"
    and "individual1 < next_obj w" and "individual2 < next_obj w"
    and "labels_well_formed (tree_get_partition K (objs w individual1) Map.empty) labels"
    and "labels_well_formed (tree_get_partition K (objs w individual2) Map.empty) labels"
    and "keys_name_one_node K (objs w individual1) (objs w individual2) labels"
  shows "\<exists>w'. dollo_crossover_exchange_subtrees K labels individual1 individual2 w
            = (Inr (find (qualifies K (objs w individual1) (objs w individual2)) labels \<noteq> None,
                    next_obj w, Suc (next_obj w)), w')
          \<and> (objs w' (next_obj w), objs w' (Suc (next_obj w)))
            = (case find (qualifies K (objs w individual1) (objs w individual2)) labels of
                 None \<Rightarrow> (objs w individual1, objs w individual2)
               | Some lab0 \<Rightarrow>
                   exchange_parents K labels
                     (objs w individual1) (hd (matched (objs w individual1) (lab0 @ ''+'')))
                     (objs w individual2) (hd (matched (objs w individual2) (lab0 @ ''+''))))"
  using subtrees_unequal [OF assms] by blast


lemma gained_once_keys:
  "gained_once tree1 labels \<Longrightarrow> gained_once tree2 labels \<Longrightarrow> keys_name_one_node K tree1 tree2 labels"
  by (simp add: gained_once_def keys_name_one_node_def)

text \<open>
  Claim C7, as the code has it. For a label list that is not empty and parents in which
  the plus variant of every label labels exactly one node, the orchestrator returns two
  offspring, new objects both, and leaves the parents as they were. The offspring are
  the result of subtree exchange when that succeeds; otherwise the result of edge
  exchange when that succeeds; otherwise two deep copies of the parents.
\<close>

theorem crossover_gives_offspring_when_lookups_succeed:
  assumes al: "individual1 < next_obj w" "individual2 < next_obj w"
    and l: "labels \<noteq> []"
    and wf1: "labels_well_formed (tree_get_partition K (objs w individual1) Map.empty) labels"
    and wf2: "labels_well_formed (tree_get_partition K (objs w individual2) Map.empty) labels"
    and g1: "gained_once (objs w individual1) labels"
    and g2: "gained_once (objs w individual2) labels"
  shows "\<exists>o1 o2 w'.
           crossover_dollo_node_individuals K labels individual1 individual2 w = (Inr (o1, o2), w')
         \<and> o1 \<noteq> individual1 \<and> o1 \<noteq> individual2 \<and> o2 \<noteq> individual1 \<and> o2 \<noteq> individual2 \<and> o1 \<noteq> o2
         \<and> objs w' individual1 = objs w individual1 \<and> objs w' individual2 = objs w individual2
         \<and> (dollo_crossover_exchange_subtrees K labels individual1 individual2 w
               = (Inr (True, o1, o2), w')
           \<or> (\<exists>a b w1.
                 dollo_crossover_exchange_subtrees K labels individual1 individual2 w
                   = (Inr (False, a, b), w1)
               \<and> dollo_crossover_exchange_edge K labels individual1 individual2 w1
                   = (Inr (True, o1, o2), w'))
           \<or> (\<exists>a b w1 c d w2.
                 dollo_crossover_exchange_subtrees K labels individual1 individual2 w
                   = (Inr (False, a, b), w1)
               \<and> dollo_crossover_exchange_edge K labels individual1 individual2 w1
                   = (Inr (False, c, d), w2)
               \<and> w' = snd (deepcopy individual2 (snd (deepcopy individual1 w2)))
               \<and> o1 = fst (deepcopy individual1 w2)
               \<and> o2 = fst (deepcopy individual2 (snd (deepcopy individual1 w2)))
               \<and> objs w' o1 = objs w individual1 \<and> objs w' o2 = objs w individual2))"
proof (cases "tree_is_equal K (objs w individual1) (objs w individual2)")
  case True
  have s: "dollo_crossover_exchange_subtrees K labels individual1 individual2 w
             = (Inr (False, individual1, individual2), w)"
    and e: "dollo_crossover_exchange_edge K labels individual1 individual2 w
             = (Inr (False, individual1, individual2), w)"
    using True by (simp_all add: dollo_crossover_exchange_subtrees_def dollo_crossover_exchange_edge_def)
  obtain c1 w3 where c1: "deepcopy individual1 w = (c1, w3)" by (cases "deepcopy individual1 w")
  obtain c2 w4 where c2: "deepcopy individual2 w3 = (c2, w4)" by (cases "deepcopy individual2 w3")
  note dc = deepcopy_twice [OF al c1 c2]
  have k: "objs w4 individual1 = objs w individual1" "objs w4 individual2 = objs w individual2"
    using dc(6) al by auto
  have x: "crossover_dollo_node_individuals K labels individual1 individual2 w = (Inr (c1, c2), w4)"
    by (simp add: crossover_dollo_node_individuals_def s e c1 c2)
  have d: "c1 \<noteq> individual1" "c1 \<noteq> individual2" "c2 \<noteq> individual1" "c2 \<noteq> individual2" "c1 \<noteq> c2"
    using dc(1,2) al by auto
  show ?thesis
    using x d k s e c1 c2 dc(4,5) by auto
next
  case False
  note one = gained_once_keys [OF g1 g2, of K]
  from subtrees_unequal [OF False al wf1 wf2 one]
  obtain w1 where s: "dollo_crossover_exchange_subtrees K labels individual1 individual2 w
            = (Inr (find (qualifies K (objs w individual1) (objs w individual2)) labels \<noteq> None,
                    next_obj w, Suc (next_obj w)), w1)"
    and k1: "objs w1 individual1 = objs w individual1" "objs w1 individual2 = objs w individual2"
    and n1: "next_obj w1 = Suc (Suc (next_obj w))"
    by blast
  have d: "next_obj w \<noteq> individual1" "next_obj w \<noteq> individual2"
    "Suc (next_obj w) \<noteq> individual1" "Suc (next_obj w) \<noteq> individual2"
    using al by auto
  show ?thesis
  proof (cases "find (qualifies K (objs w individual1) (objs w individual2)) labels")
    case (Some lab0)
    with s have "crossover_dollo_node_individuals K labels individual1 individual2 w
                   = (Inr (next_obj w, Suc (next_obj w)), w1)"
      by (simp add: crossover_dollo_node_individuals_def)
    with s Some d k1 show ?thesis by auto
  next
    case None
    have ne1: "\<not> tree_is_equal K (objs w1 individual1) (objs w1 individual2)"
      using False k1 by simp
    have al1: "individual1 < next_obj w1" "individual2 < next_obj w1"
      using al n1 by auto
    from edge_succeeds [OF ne1 al1 l] g1 g2 k1
    obtain w2 where e: "dollo_crossover_exchange_edge K labels individual1 individual2 w1
            = (Inr (True, next_obj w1, Suc (next_obj w1)), w2)"
      by auto
    from edge_returns [OF ne1 al1 e] k1
    have k2: "objs w2 individual1 = objs w individual1" "objs w2 individual2 = objs w individual2"
      by auto
    have x: "crossover_dollo_node_individuals K labels individual1 individual2 w
               = (Inr (next_obj w1, Suc (next_obj w1)), w2)"
      using s None e by (simp add: crossover_dollo_node_individuals_def)
    have d1: "next_obj w1 \<noteq> individual1" "next_obj w1 \<noteq> individual2"
      "Suc (next_obj w1) \<noteq> individual1" "Suc (next_obj w1) \<noteq> individual2"
      using al1 by auto
    show ?thesis
      using x s None e d1 k2 by auto
  qed
qed

text \<open>
  Claim C8, as the code has it. For a label list that is not empty and an individual with
  at least one node below its root, \<open>dollo_mutation_node_add\<close> reports failure and the
  orchestrator returns a one-element tuple with a new object that holds a copy of the
  individual's tree; the individual itself is unchanged.
\<close>

theorem mutation_returns_a_copy_of_a_tree_with_descendants:
  assumes "individual < next_obj w" and "labels \<noteq> []" and "descendants (objs w individual) \<noteq> []"
  shows "\<exists>w'. mutate_dollo_node_individual labels k individual w = (Inr [Suc (next_obj w)], w')
          \<and> fst (dollo_mutation_node_add labels k individual w) = Inr (False, next_obj w)
          \<and> Suc (next_obj w) \<noteq> individual
          \<and> objs w' (Suc (next_obj w)) = objs w individual
          \<and> objs w' individual = objs w individual"
  using assms
  by (auto simp: mutate_dollo_node_individual_def dollo_mutation_node_add_def deepcopy_def
      random_choice_def random_random_def Let_def)

lemma sample_objs:
  "objs sample_world 0 = sample_parent1" "objs sample_world 1 = sample_parent2"
  "objs sample_world (Suc 0) = sample_parent2"
  "next_obj sample_world = 2" "objs twins_world i = sample_parent1" "next_obj twins_world = 2"
  "objs lone_world i = sample_tree" "next_obj lone_world = 1"
  "draws sample_world n = 0" "drawn sample_world = 0"
  by (simp_all add: sample_world_def twins_world_def lone_world_def)

lemma sample_nodes:
  "nodes_of sample_parent1 =
     [([], sample_parent1),
      ([0], DolloNode ''a+'' [] [DolloNode ''b+'' [] [], DolloNode ''c+'' [] []]),
      ([0, 0], DolloNode ''b+'' [] []),
      ([0, 1], DolloNode ''c+'' [] [])]"
  "nodes_of sample_parent2 =
     [([], sample_parent2),
      ([0], DolloNode ''a+'' [] [DolloNode ''c+'' [] [DolloNode ''b+'' [] []]]),
      ([0, 0], DolloNode ''c+'' [] [DolloNode ''b+'' [] []]),
      ([0, 0, 0], DolloNode ''b+'' [] [])]"
  by (simp_all add: sample_parent1_def sample_parent2_def)

lemma sample_matched:
  "matched sample_parent1 ''a+'' = [([0], DolloNode ''a+'' [] [DolloNode ''b+'' [] [], DolloNode ''c+'' [] []])]"
  "matched sample_parent1 ''b+'' = [([0, 0], DolloNode ''b+'' [] [])]"
  "matched sample_parent1 ''c+'' = [([0, 1], DolloNode ''c+'' [] [])]"
  "matched sample_parent1 ''d+'' = []"
  "matched sample_parent2 ''a+'' = [([0], DolloNode ''a+'' [] [DolloNode ''c+'' [] [DolloNode ''b+'' [] []]])]"
  "matched sample_parent2 ''b+'' = [([0, 0, 0], DolloNode ''b+'' [] [])]"
  "matched sample_parent2 ''c+'' = [([0, 0], DolloNode ''c+'' [] [DolloNode ''b+'' [] []])]"
  "matched sample_parent2 ''d+'' = []"
  by (simp_all add: matched_def sample_nodes) (simp_all add: sample_parent1_def sample_parent2_def)

lemma sample_partitions:
  "sample_partition sample_parent1 Map.empty =
     [''a+'' \<mapsto> [[''a+'', ''b+'', ''c+'']], ''b+'' \<mapsto> [[''b+'']], ''c+'' \<mapsto> [[''c+'']]]"
  "sample_partition sample_parent2 Map.empty =
     [''a+'' \<mapsto> [[''a+'', ''c+'', ''b+'']], ''c+'' \<mapsto> [[''c+'', ''b+'']], ''b+'' \<mapsto> [[''b+'']]]"
  by (simp_all add: sample_partition_def sample_nodes) (simp_all add: sample_parent1_def sample_parent2_def)


lemma sample_class_simps:
  "tree_get_partition sample_class = sample_partition"
  "tree_is_equal sample_class = (=)"
  "regularize sample_class labels t = t"
  by (simp_all add: sample_class_def regularize_def)

lemma sample_unequal: "sample_parent1 \<noteq> sample_parent2"
  by (simp add: sample_parent1_def sample_parent2_def)

lemma sample_well_formed:
  "labels_well_formed (tree_get_partition sample_class sample_parent1 Map.empty) labels"
  "labels_well_formed (tree_get_partition sample_class sample_parent2 Map.empty) labels"
  by (auto simp: labels_well_formed_def sample_class_simps sample_partitions split: if_splits)

lemma sample_gained_once:
  "gained_once sample_parent1 [''b'', ''c'', ''a'']"
  "gained_once sample_parent2 [''b'', ''c'', ''a'']"
  by (simp_all add: gained_once_def sample_matched)

lemma sample_coverage:
  "plus_coverage (sample_partition sample_parent1 Map.empty) ''a+'' = {''a+'', ''b+'', ''c+''}"
  "plus_coverage (sample_partition sample_parent2 Map.empty) ''a+'' = {''a+'', ''b+'', ''c+''}"
  "plus_coverage (sample_partition sample_parent1 Map.empty) ''b+'' = {''b+''}"
  "plus_coverage (sample_partition sample_parent2 Map.empty) ''b+'' = {''b+''}"
  "plus_coverage (sample_partition sample_parent1 Map.empty) ''c+'' = {''c+''}"
  "plus_coverage (sample_partition sample_parent2 Map.empty) ''c+'' = {''b+'', ''c+''}"
  unfolding plus_coverage_def sample_partitions by auto


lemma sample_domains:
  "''a+'' \<in> dom (sample_partition sample_parent1 Map.empty)"
  "''a+'' \<in> dom (sample_partition sample_parent2 Map.empty)"
  "''b+'' \<in> dom (sample_partition sample_parent1 Map.empty)"
  "''b+'' \<in> dom (sample_partition sample_parent2 Map.empty)"
  "''c+'' \<in> dom (sample_partition sample_parent1 Map.empty)"
  "''c+'' \<in> dom (sample_partition sample_parent2 Map.empty)"
  unfolding sample_partitions by simp_all

lemma sample_coverage_differs: "{''c+''} \<noteq> {''b+'', ''c+''}"
  by auto

lemma sample_qualifies:
  "\<not> qualifies sample_class sample_parent1 sample_parent2 ''b''"
  "\<not> qualifies sample_class sample_parent1 sample_parent2 ''c''"
  "qualifies sample_class sample_parent1 sample_parent2 ''a''"
  by (simp_all add: qualifies_def Let_def sample_class_simps sample_coverage sample_domains
      sample_matched sample_coverage_differs)


lemma sample_find:
  "find (qualifies sample_class sample_parent1 sample_parent2) [''b'', ''c'', ''a''] = Some ''a''"
  "find (qualifies sample_class sample_parent1 sample_parent2) [''b'', ''c''] = None"
  by (simp_all add: sample_qualifies)

lemma sample_exchange:
  "exchange_parents sample_class labels
     sample_parent1 (hd (matched sample_parent1 ''a+''))
     sample_parent2 (hd (matched sample_parent2 ''a+'')) = (sample_parent2, sample_parent1)"
  by (simp add: exchange_parents_def sample_matched sample_class_simps)
     (simp add: sample_parent1_def sample_parent2_def)

text \<open>With the labels b, c, a the sample parents exchange at a, after b (equal subtrees)
  and c (different coverage) were passed over; with the labels b, c nothing qualifies.\<close>

theorem subtree_exchange_at_first_qualifying_label_witness:
  "find (qualifies sample_class sample_parent1 sample_parent2) [''b'', ''c'', ''a''] = Some ''a''
 \<and> fst (dollo_crossover_exchange_subtrees sample_class [''b'', ''c'', ''a''] 0 1 sample_world)
     = Inr (True, 2, 3)
 \<and> objs (snd (dollo_crossover_exchange_subtrees sample_class [''b'', ''c'', ''a''] 0 1 sample_world)) 2
     = sample_parent2
 \<and> objs (snd (dollo_crossover_exchange_subtrees sample_class [''b'', ''c'', ''a''] 0 1 sample_world)) 3
     = sample_parent1
 \<and> find (qualifies sample_class sample_parent1 sample_parent2) [''b'', ''c''] = None
 \<and> fst (dollo_crossover_exchange_subtrees sample_class [''b'', ''c''] 0 1 sample_world)
     = Inr (False, 2, 3)
 \<and> objs (snd (dollo_crossover_exchange_subtrees sample_class [''b'', ''c''] 0 1 sample_world)) 2
     = sample_parent1
 \<and> objs (snd (dollo_crossover_exchange_subtrees sample_class [''b'', ''c''] 0 1 sample_world)) 3
     = sample_parent2"
proof -
  have ne: "\<not> tree_is_equal sample_class (objs sample_world 0) (objs sample_world 1)"
    by (simp add: sample_objs sample_class_simps sample_unequal)
  have al: "0 < next_obj sample_world" "1 < next_obj sample_world"
    by (simp_all add: sample_objs)
  have wf: "labels_well_formed (tree_get_partition sample_class (objs sample_world 0) Map.empty) labels"
    "labels_well_formed (tree_get_partition sample_class (objs sample_world 1) Map.empty) labels"
    for labels
    by (simp_all add: sample_objs sample_well_formed)
  have one: "keys_name_one_node sample_class (objs sample_world 0) (objs sample_world 1) [''b'', ''c'', ''a'']"
    "keys_name_one_node sample_class (objs sample_world 0) (objs sample_world 1) [''b'', ''c'']"
    by (simp_all add: keys_name_one_node_def sample_objs sample_matched)
  from subtree_exchange_at_first_qualifying_label [OF ne al wf one(1)]
  obtain w1 where
    r1: "dollo_crossover_exchange_subtrees sample_class [''b'', ''c'', ''a''] 0 1 sample_world
           = (Inr (True, 2, 3), w1)"
    and o1: "(objs w1 2, objs w1 3) = (sample_parent2, sample_parent1)"
    unfolding sample_objs sample_find
    by (auto simp: sample_exchange numeral_2_eq_2 numeral_3_eq_3 simp del: find.simps)
  from subtree_exchange_at_first_qualifying_label [OF ne al wf one(2)]
  obtain w2 where
    r2: "dollo_crossover_exchange_subtrees sample_class [''b'', ''c''] 0 1 sample_world
           = (Inr (False, 2, 3), w2)"
    and o2: "(objs w2 2, objs w2 3) = (sample_parent1, sample_parent2)"
    unfolding sample_objs sample_find
    by (auto simp: numeral_2_eq_2 numeral_3_eq_3 simp del: find.simps)
  show ?thesis
    using o1 o2 r1 r2 by (simp add: sample_find del: find.simps)
qed

lemma sample_subtrees_fail:
  "\<exists>w1. dollo_crossover_exchange_subtrees sample_class labels 0 1 sample_world
           = (Inr (find (qualifies sample_class sample_parent1 sample_parent2) labels \<noteq> None, 2, 3), w1)
        \<and> objs w1 0 = sample_parent1 \<and> objs w1 1 = sample_parent2
        \<and> next_obj w1 = 4 \<and> draws w1 = (\<lambda>n. 0) \<and> drawn w1 = 0"
  if "keys_name_one_node sample_class sample_parent1 sample_parent2 labels"
proof -
  have ne: "\<not> tree_is_equal sample_class (objs sample_world 0) (objs sample_world 1)"
    by (simp add: sample_objs sample_class_simps sample_unequal)
  have al: "0 < next_obj sample_world" "1 < next_obj sample_world"
    by (simp_all add: sample_objs)
  have wf: "labels_well_formed (tree_get_partition sample_class (objs sample_world 0) Map.empty) labels"
    "labels_well_formed (tree_get_partition sample_class (objs sample_world 1) Map.empty) labels"
    by (simp_all add: sample_objs sample_well_formed)
  have one: "keys_name_one_node sample_class (objs sample_world 0) (objs sample_world 1) labels"
    using that by (simp add: sample_objs)
  have d: "draws sample_world = (\<lambda>n. 0)" by (simp add: sample_world_def)
  from subtrees_unequal [OF ne al wf one] show ?thesis
    unfolding sample_objs d
    by (auto simp: numeral_2_eq_2 numeral_3_eq_3 eval_nat_numeral simp del: find.simps)
qed

text \<open>For two objects that hold equal trees, both strategies return the objects 0 and 1
  they were given.\<close>

theorem crossover_returns_the_inputs_counterexample:
  "fst (dollo_crossover_exchange_subtrees sample_class [''a'', ''b'', ''c''] 0 1 twins_world)
     = Inr (False, 0, 1)
 \<and> fst (dollo_crossover_exchange_edge sample_class [''a'', ''b'', ''c''] 0 1 twins_world)
     = Inr (False, 0, 1)"
  by (simp add: dollo_crossover_exchange_subtrees_def dollo_crossover_exchange_edge_def
      sample_objs sample_class_simps)

text \<open>For two objects that hold equal trees, no object is created: what comes back are
  the parents, not copies.\<close>

theorem crossover_of_equal_trees_makes_no_copy_counterexample:
  "fst (dollo_crossover_exchange_subtrees sample_class [''a'', ''b'', ''c''] 0 1 twins_world)
     = Inr (False, 0, 1)
 \<and> next_obj (snd (dollo_crossover_exchange_subtrees sample_class [''a'', ''b'', ''c''] 0 1 twins_world))
     = next_obj twins_world
 \<and> fst (dollo_crossover_exchange_edge sample_class [''a'', ''b'', ''c''] 0 1 twins_world)
     = Inr (False, 0, 1)
 \<and> next_obj (snd (dollo_crossover_exchange_edge sample_class [''a'', ''b'', ''c''] 0 1 twins_world))
     = next_obj twins_world"
  by (simp add: dollo_crossover_exchange_subtrees_def dollo_crossover_exchange_edge_def
      sample_objs sample_class_simps)

text \<open>The two equal sample trees come back as they are, and so does the state.\<close>

theorem crossover_of_equal_trees_returns_the_inputs_witness:
  "tree_is_equal sample_class (objs twins_world 0) (objs twins_world 1)
 \<and> dollo_crossover_exchange_subtrees sample_class [''a'', ''b'', ''c''] 0 1 twins_world
     = (Inr (False, 0, 1), twins_world)
 \<and> dollo_crossover_exchange_edge sample_class [''a'', ''b'', ''c''] 0 1 twins_world
     = (Inr (False, 0, 1), twins_world)"
proof -
  have e: "tree_is_equal sample_class (objs twins_world 0) (objs twins_world 1)"
    by (simp add: sample_objs sample_class_simps)
  from crossover_of_equal_trees_returns_the_inputs [OF e, of "[''a'', ''b'', ''c'']"] e
  show ?thesis by simp
qed

text \<open>The two sample parents with the labels b and c: subtree exchange fails and edge
  exchange succeeds, and either way the copies are the objects 2 and 3.\<close>

theorem crossover_returns_copies_of_unequal_trees_witness:
  "sample_parent1 \<noteq> sample_parent2
 \<and> fst (dollo_crossover_exchange_subtrees sample_class [''b'', ''c''] 0 1 sample_world)
     = Inr (False, 2, 3)
 \<and> objs (snd (dollo_crossover_exchange_subtrees sample_class [''b'', ''c''] 0 1 sample_world)) 0
     = sample_parent1
 \<and> objs (snd (dollo_crossover_exchange_subtrees sample_class [''b'', ''c''] 0 1 sample_world)) 1
     = sample_parent2
 \<and> objs (snd (dollo_crossover_exchange_subtrees sample_class [''b'', ''c''] 0 1 sample_world)) 2
     = sample_parent1
 \<and> objs (snd (dollo_crossover_exchange_subtrees sample_class [''b'', ''c''] 0 1 sample_world)) 3
     = sample_parent2
 \<and> fst (dollo_crossover_exchange_edge sample_class [''b'', ''c''] 0 1 sample_world)
     = Inr (True, 2, 3)
 \<and> objs (snd (dollo_crossover_exchange_edge sample_class [''b'', ''c''] 0 1 sample_world)) 0
     = sample_parent1
 \<and> objs (snd (dollo_crossover_exchange_edge sample_class [''b'', ''c''] 0 1 sample_world)) 1
     = sample_parent2"
proof -
  have ne: "\<not> tree_is_equal sample_class (objs sample_world 0) (objs sample_world 1)"
    by (simp add: sample_objs sample_class_simps sample_unequal)
  have al: "0 < next_obj sample_world" "1 < next_obj sample_world"
    by (simp_all add: sample_objs)
  have one: "keys_name_one_node sample_class sample_parent1 sample_parent2 [''b'', ''c'']"
    by (simp add: keys_name_one_node_def sample_matched)
  from sample_subtrees_fail [OF one] obtain w1 where
    r: "dollo_crossover_exchange_subtrees sample_class [''b'', ''c''] 0 1 sample_world
          = (Inr (False, 2, 3), w1)"
    unfolding sample_find by auto
  have st: "dollo_crossover_exchange_subtrees = dollo_crossover_exchange_subtrees
          \<or> dollo_crossover_exchange_subtrees = dollo_crossover_exchange_edge"
    by simp
  from crossover_returns_copies_of_unequal_trees
         [where strategy = dollo_crossover_exchange_subtrees, OF ne al st r]
  have a: "objs w1 0 = objs sample_world 0 \<and> objs w1 1 = objs sample_world 1
      \<and> objs w1 2 = objs sample_world 0 \<and> objs w1 3 = objs sample_world 1"
    by simp
  have g: "gained_once (objs sample_world 0) [''b'', ''c'']"
    "gained_once (objs sample_world 1) [''b'', ''c'']"
    by (simp_all add: gained_once_def sample_objs sample_matched)
  from edge_succeeds [OF ne al _ g] obtain w2 where
    e: "dollo_crossover_exchange_edge sample_class [''b'', ''c''] 0 1 sample_world
          = (Inr (True, 2, 3), w2)"
    by (auto simp: sample_objs numeral_2_eq_2 numeral_3_eq_3)
  have se: "dollo_crossover_exchange_edge = dollo_crossover_exchange_subtrees
          \<or> dollo_crossover_exchange_edge = dollo_crossover_exchange_edge"
    by simp
  from crossover_returns_copies_of_unequal_trees
         [where strategy = dollo_crossover_exchange_edge, OF ne al se e]
  have b: "objs w2 0 = objs sample_world 0 \<and> objs w2 1 = objs sample_world 1"
    by simp
  show ?thesis
    using a b r e by (simp add: sample_objs sample_unequal)
qed

lemma search_find_none: "matched tree lab = [] \<Longrightarrow> search_find tree lab = Inr None"
  by (simp add: search_find_def matched_def)

text \<open>No offspring: with the label d, which neither sample parent has gained, edge
  exchange looks up a node that is not there; with the empty label list it has nothing
  to choose from.\<close>

theorem crossover_raises_counterexample:
  "fst (crossover_dollo_node_individuals sample_class [''d''] 0 1 sample_world) = Inl AttributeError
 \<and> fst (crossover_dollo_node_individuals sample_class [] 0 1 sample_world) = Inl IndexError"
proof -
  have one: "keys_name_one_node sample_class sample_parent1 sample_parent2 [''d'']"
    "keys_name_one_node sample_class sample_parent1 sample_parent2 []"
    by (simp_all add: keys_name_one_node_def sample_class_simps sample_partitions)
  have nq: "\<not> qualifies sample_class sample_parent1 sample_parent2 ''d''"
    by (simp add: qualifies_def Let_def sample_class_simps sample_partitions)
  from sample_subtrees_fail [OF one(1)] nq obtain w1 where
    s: "dollo_crossover_exchange_subtrees sample_class [''d''] 0 1 sample_world
          = (Inr (False, 2, 3), w1)"
    and o: "objs w1 0 = sample_parent1" "objs w1 1 = sample_parent2"
    and n: "next_obj w1 = 4" and d: "draws w1 = (\<lambda>n. 0)" "drawn w1 = 0"
    by auto
  have e: "fst (dollo_crossover_exchange_edge sample_class [''d''] 0 1 w1) = Inl AttributeError"
    using o n d
    by (simp add: dollo_crossover_exchange_edge_def sample_class_simps sample_unequal deepcopy_def
        random_choice_def random_random_def Let_def search_find_none sample_matched
        descendants_def sample_nodes)
  obtain w2 where e2: "dollo_crossover_exchange_edge sample_class [''d''] 0 1 w1 = (Inl AttributeError, w2)"
    using e by (cases "dollo_crossover_exchange_edge sample_class [''d''] 0 1 w1") auto
  have first: "fst (crossover_dollo_node_individuals sample_class [''d''] 0 1 sample_world)
                 = Inl AttributeError"
    using s e2 by (simp add: crossover_dollo_node_individuals_def)
  from sample_subtrees_fail [OF one(2)] obtain v1 where
    s': "dollo_crossover_exchange_subtrees sample_class [] 0 1 sample_world
          = (Inr (False, 2, 3), v1)"
    and o': "objs v1 0 = sample_parent1" "objs v1 1 = sample_parent2"
    by auto
  have e': "fst (dollo_crossover_exchange_edge sample_class [] 0 1 v1) = Inl IndexError"
    using o'
    by (simp add: dollo_crossover_exchange_edge_def sample_class_simps sample_unequal deepcopy_def
        random_choice_def Let_def)
  obtain v2 where e2': "dollo_crossover_exchange_edge sample_class [] 0 1 v1 = (Inl IndexError, v2)"
    using e' by (cases "dollo_crossover_exchange_edge sample_class [] 0 1 v1") auto
  have second: "fst (crossover_dollo_node_individuals sample_class [] 0 1 sample_world)
                  = Inl IndexError"
    using s' e2' by (simp add: crossover_dollo_node_individuals_def)
  from first second show ?thesis by simp
qed

text \<open>The sample parents with the labels b, c, a: the offspring are the objects 2 and 3
  of the subtree exchange.\<close>

theorem crossover_gives_offspring_when_lookups_succeed_witness:
  "gained_once sample_parent1 [''b'', ''c'', ''a''] \<and> gained_once sample_parent2 [''b'', ''c'', ''a'']
 \<and> fst (crossover_dollo_node_individuals sample_class [''b'', ''c'', ''a''] 0 1 sample_world)
     = Inr (2, 3)
 \<and> fst (dollo_crossover_exchange_subtrees sample_class [''b'', ''c'', ''a''] 0 1 sample_world)
     = Inr (True, 2, 3)
 \<and> objs (snd (crossover_dollo_node_individuals sample_class [''b'', ''c'', ''a''] 0 1 sample_world)) 0
     = sample_parent1
 \<and> objs (snd (crossover_dollo_node_individuals sample_class [''b'', ''c'', ''a''] 0 1 sample_world)) 1
     = sample_parent2"
proof -
  have al: "0 < next_obj sample_world" "1 < next_obj sample_world"
    by (simp_all add: sample_objs)
  have l: "[''b'', ''c'', ''a''] \<noteq> []" by simp
  have wf: "labels_well_formed (tree_get_partition sample_class (objs sample_world 0) Map.empty)
              [''b'', ''c'', ''a'']"
    "labels_well_formed (tree_get_partition sample_class (objs sample_world 1) Map.empty)
              [''b'', ''c'', ''a'']"
    by (simp_all add: sample_objs sample_well_formed)
  have g: "gained_once (objs sample_world 0) [''b'', ''c'', ''a'']"
    "gained_once (objs sample_world 1) [''b'', ''c'', ''a'']"
    by (simp_all add: sample_objs sample_gained_once)
  have one: "keys_name_one_node sample_class sample_parent1 sample_parent2 [''b'', ''c'', ''a'']"
    by (rule gained_once_keys) (rule sample_gained_once)+
  from sample_subtrees_fail [OF one] obtain w1 where
    s: "dollo_crossover_exchange_subtrees sample_class [''b'', ''c'', ''a''] 0 1 sample_world
          = (Inr (True, 2, 3), w1)"
    unfolding sample_find by auto
  from crossover_gives_offspring_when_lookups_succeed [OF al l wf g]
  obtain o1 o2 w' where
    x: "crossover_dollo_node_individuals sample_class [''b'', ''c'', ''a''] 0 1 sample_world
          = (Inr (o1, o2), w')"
    and k: "objs w' 0 = objs sample_world 0" "objs w' 1 = objs sample_world 1"
    and c: "dollo_crossover_exchange_subtrees sample_class [''b'', ''c'', ''a''] 0 1 sample_world
               = (Inr (True, o1, o2), w')
           \<or> (\<exists>a b w1.
                 dollo_crossover_exchange_subtrees sample_class [''b'', ''c'', ''a''] 0 1 sample_world
                   = (Inr (False, a, b), w1))"
    by blast
  from c s have "o1 = 2" "o2 = 3" by auto
  with x k s show ?thesis
    by (simp add: sample_objs sample_gained_once)
qed

text \<open>No mutant: a tree that is a single root has no descendant to choose, and an empty
  label list has no label to choose.\<close>

theorem mutation_raises_counterexample:
  "fst (mutate_dollo_node_individual [''a'', ''b'', ''c''] 2 0 lone_world) = Inl IndexError
 \<and> fst (mutate_dollo_node_individual [] 2 0 sample_world) = Inl IndexError"
  by (simp add: mutate_dollo_node_individual_def dollo_mutation_node_add_def deepcopy_def
      random_choice_def Let_def descendants_def sample_objs sample_tree_def sample_nodes)

text \<open>The first sample parent: the stub's copy is the object 2, the returned copy is
  the object 3.\<close>

theorem mutation_returns_a_copy_of_a_tree_with_descendants_witness:
  "[''a'', ''b'', ''c''] \<noteq> [] \<and> length (descendants (objs sample_world 0)) = 3
 \<and> fst (mutate_dollo_node_individual [''a'', ''b'', ''c''] 2 0 sample_world) = Inr [3]
 \<and> fst (dollo_mutation_node_add [''a'', ''b'', ''c''] 2 0 sample_world) = Inr (False, 2)
 \<and> objs (snd (mutate_dollo_node_individual [''a'', ''b'', ''c''] 2 0 sample_world)) 3 = sample_parent1
 \<and> objs (snd (mutate_dollo_node_individual [''a'', ''b'', ''c''] 2 0 sample_world)) 0 = sample_parent1"
proof -
  have al: "0 < next_obj sample_world" by (simp add: sample_objs)
  have l: "[''a'', ''b'', ''c''] \<noteq> []" by simp
  have d: "length (descendants (objs sample_world 0)) = 3"
    by (simp add: descendants_def sample_objs sample_nodes)
  then have d': "descendants (objs sample_world 0) \<noteq> []" by auto
  from mutation_returns_a_copy_of_a_tree_with_descendants [OF al l d', of 2] d
  show ?thesis
    by (auto simp: sample_objs numeral_3_eq_3 numeral_2_eq_2)
qed

lemma twice_nodes:
  "nodes_of twice_parent =
     [([], twice_parent),
      ([0], DolloNode ''a+'' [] [DolloNode ''b+'' [] []]),
      ([0, 0], DolloNode ''b+'' [] []),
      ([1], DolloNode ''a+'' [] [DolloNode ''b+'' [] []]),
      ([1, 0], DolloNode ''b+'' [] [])]"
  "nodes_of once_parent =
     [([], once_parent),
      ([0], DolloNode ''a+'' [] [DolloNode ''b+'' [] []]),
      ([0, 0], DolloNode ''b+'' [] [])]"
  by (simp_all add: twice_parent_def once_parent_def)

lemma twice_partitions:
  "sample_partition twice_parent Map.empty ''a+'' = Some [[''a+'', ''b+'']]"
  "sample_partition once_parent Map.empty ''a+'' = Some [[''a+'', ''b+'']]"
  by (simp_all add: sample_partition_def twice_nodes)

lemma twice_plus_labels: "set_consits_of_plus_lebels [[''a+'', ''b+'']] = Inr [''b+'', ''a+'']"
  by (simp add: set_consits_of_plus_lebels_def)

lemma twice_find:
  "search_find twice_parent ''a+'' = Inl CountError"
  by (simp add: search_find_def twice_nodes)

text \<open>No result: the two trees are not equal, the label a qualifies as far as the
  partition maps go, and the search for the node labelled a+ finds two of them in the
  first tree.\<close>

theorem subtree_exchange_raises_counterexample:
  "objs twice_world 0 \<noteq> objs twice_world 1
 \<and> fst (dollo_crossover_exchange_subtrees sample_class [''a''] 0 1 twice_world) = Inl CountError"
proof -
  have o: "objs twice_world 0 = twice_parent" "objs twice_world 1 = once_parent"
    by (simp_all add: twice_world_def)
  have ne: "twice_parent \<noteq> once_parent"
    by (simp add: twice_parent_def once_parent_def)
  have al: "0 < next_obj twice_world" "1 < next_obj twice_world"
    by (simp_all add: twice_world_def)
  obtain r1 w1 where c1: "deepcopy 0 twice_world = (r1, w1)" by (cases "deepcopy 0 twice_world")
  obtain r2 w2 where c2: "deepcopy 1 w1 = (r2, w2)" by (cases "deepcopy 1 w1")
  note dc = deepcopy_twice [OF al c1 c2]
  have t: "objs w2 r1 = twice_parent" "objs w2 r2 = once_parent"
    using dc(4,5) o by simp_all
  have x: "exchange_at sample_class [''a'']
             (sample_partition twice_parent Map.empty) (sample_partition once_parent Map.empty)
             r1 r2 ''a'' w2 = (Inl CountError, w2)"
    by (simp add: exchange_at_def Let_def twice_partitions twice_plus_labels sets_are_equal_def
        twice_find t)
  have "dollo_crossover_exchange_subtrees sample_class [''a''] 0 1 twice_world = (Inl CountError, w2)"
    using ne c1 c2 t x o
    by (simp add: dollo_crossover_exchange_subtrees_def sample_class_simps)
  then show ?thesis
    using ne o by simp
qed

end
